theory Spec2Isabelle
  imports Complex_Main "HOL-Library.Char_ord" "HOL-Library.List_Lexorder" "HOL-Library.Multiset"
begin

section \<open>Python string primitives used by the program\<close>

text \<open>
  Python strings are modelled as \<open>string\<close>; a \<open>char\<close> stands for a code point below 256.
  \<open>py_isspace\<close> is \<^verbatim>\<open>str.isspace\<close> on one such code point: the characters that
  \<^verbatim>\<open>str.split()\<close> and \<^verbatim>\<open>str.strip()\<close> (both called without arguments) treat as
  whitespace.
\<close>

definition py_isspace :: "char \<Rightarrow> bool" where
  "py_isspace c =
     (let n = (of_char c :: nat)
      in (9 \<le> n \<and> n \<le> 13) \<or> (28 \<le> n \<and> n \<le> 32) \<or> n = 133 \<or> n = 160)"

text \<open>
  \<^verbatim>\<open>s.split()\<close>: the maximal runs of non-whitespace characters, in order. \<open>split_from w s\<close>
  scans \<open>s\<close> with the word \<open>w\<close> read so far.
\<close>

fun split_from :: "string \<Rightarrow> string \<Rightarrow> string list" where
  "split_from w [] = (if w = [] then [] else [w])"
| "split_from w (c # cs) =
     (if py_isspace c
      then (if w = [] then split_from [] cs else w # split_from [] cs)
      else split_from (w @ [c]) cs)"

definition py_split :: "string \<Rightarrow> string list" where
  "py_split s = split_from [] s"

text \<open>\<^verbatim>\<open>sep.join(xs)\<close>.\<close>

fun py_join :: "string \<Rightarrow> string list \<Rightarrow> string" where
  "py_join sep [] = []"
| "py_join sep [x] = x"
| "py_join sep (x # y # ys) = x @ sep @ py_join sep (y # ys)"

text \<open>\<^verbatim>\<open>s.strip()\<close>: leading and trailing whitespace removed.\<close>

definition py_strip :: "string \<Rightarrow> string" where
  "py_strip s = rev (dropWhile py_isspace (rev (dropWhile py_isspace s)))"

text \<open>
  \<^verbatim>\<open>s.lower()\<close> on code points below 256: the ASCII capitals and the Latin-1 capitals
  (192 to 222, without the multiplication sign 215) move up by 32.
\<close>

definition lower_char :: "char \<Rightarrow> char" where
  "lower_char c =
     (let n = (of_char c :: nat)
      in if (65 \<le> n \<and> n \<le> 90) \<or> (192 \<le> n \<and> n \<le> 222 \<and> n \<noteq> 215)
         then char_of (n + 32) else c)"

definition py_lower :: "string \<Rightarrow> string" where
  "py_lower s = map lower_char s"

section \<open>Chunking (app/ai_model/ai.py)\<close>

text \<open>
  \<^verbatim>\<open>chunk_text(text, max_words=300)\<close>. The sentence tokenizer \<^verbatim>\<open>nltk.sent_tokenize\<close> is a
  parameter. The loop state is \<open>(chunks, current_chunk, current_word_count)\<close>.
\<close>

definition MAX_INPUT_WORDS :: nat where
  "MAX_INPUT_WORDS = 3000"

definition CHUNK_MAX_WORDS :: nat where
  "CHUNK_MAX_WORDS = 300"

fun chunk_loop :: "nat \<Rightarrow> string list \<Rightarrow> string list \<times> string list \<times> nat
    \<Rightarrow> string list \<times> string list \<times> nat" where
  "chunk_loop max_words [] st = st"
| "chunk_loop max_words (sentence # rest) (chunks, current_chunk, current_word_count) =
     (let sentence_words = length (py_split sentence)
      in if current_word_count + sentence_words \<le> max_words
         then chunk_loop max_words rest
                (chunks, current_chunk @ [sentence], current_word_count + sentence_words)
         else chunk_loop max_words rest
                (if current_chunk \<noteq> [] then chunks @ [py_join '' '' current_chunk] else chunks,
                 [sentence], sentence_words))"

definition chunk_text :: "(string \<Rightarrow> string list) \<Rightarrow> string \<Rightarrow> nat \<Rightarrow> string list" where
  "chunk_text sent_tokenize text max_words =
     (case chunk_loop max_words (sent_tokenize text) ([], [], 0) of
        (chunks, current_chunk, current_word_count) \<Rightarrow>
          if current_chunk \<noteq> [] then chunks @ [py_join '' '' current_chunk] else chunks)"

text \<open>
  The budget property of one chunk, relative to the set \<open>S\<close> of sentences: the chunk has at
  most \<open>m\<close> words, or it is a sentence of \<open>S\<close> that is longer than \<open>m\<close> words by itself.
\<close>

definition within_budget :: "nat \<Rightarrow> string set \<Rightarrow> string \<Rightarrow> bool" where
  "within_budget m S c = (length (py_split c) \<le> m \<or> (c \<in> S \<and> m < length (py_split c)))"

section \<open>Cache keys (app/cache.py)\<close>

text \<open>
  The values passed as keyword arguments at the call sites are integers and strings.
  The keyword arguments are the \<^verbatim>\<open>kwargs\<close> dict in its insertion order: an association
  list whose names are distinct.
\<close>

datatype pyval = PInt int | PStr string

text \<open>\<^verbatim>\<open>str(i)\<close> for an integer, as \<^verbatim>\<open>json.dumps\<close> prints it.\<close>

definition digit_char :: "nat \<Rightarrow> char" where
  "digit_char n = char_of (48 + n)"

fun digits10 :: "nat \<Rightarrow> string" where
  "digits10 n = (if n < 10 then [digit_char n] else digits10 (n div 10) @ [digit_char (n mod 10)])"

declare digits10.simps [simp del]

definition py_str_int :: "int \<Rightarrow> string" where
  "py_str_int i = (if i < 0 then CHR ''-'' # digits10 (nat (- i)) else digits10 (nat i))"

text \<open>The number that a string of decimal digits denotes: the inverse of \<open>digits10\<close>.\<close>

definition digits_value :: "string \<Rightarrow> nat" where
  "digits_value ds = foldl (\<lambda>a c. 10 * a + (of_char c - 48)) 0 ds"

text \<open>
  A string as \<^verbatim>\<open>json.dumps\<close> prints it with \<^verbatim>\<open>ensure_ascii\<close> on: between double quotes,
  with the quote (34) and the backslash (92) escaped, the short escapes for 8, 9, 10, 12 and 13,
  the printable ASCII characters 32 to 126 as themselves and every other code point as
  a backslash, \<open>u\<close> and four lower-case hexadecimal digits.
\<close>

definition hex_digit :: "nat \<Rightarrow> char" where
  "hex_digit n = (if n < 10 then char_of (48 + n) else char_of (87 + n))"

definition json_escape_char :: "char \<Rightarrow> string" where
  "json_escape_char c =
     (let n = (of_char c :: nat)
      in if n = 34 then [CHR 0x5C, CHR 0x22]
         else if n = 92 then [CHR 0x5C, CHR 0x5C]
         else if n = 10 then [CHR 0x5C, CHR ''n'']
         else if n = 13 then [CHR 0x5C, CHR ''r'']
         else if n = 9 then [CHR 0x5C, CHR ''t'']
         else if n = 8 then [CHR 0x5C, CHR ''b'']
         else if n = 12 then [CHR 0x5C, CHR ''f'']
         else if 32 \<le> n \<and> n \<le> 126 then [c]
         else [CHR 0x5C, CHR ''u'', CHR ''0'', CHR ''0'', hex_digit (n div 16), hex_digit (n mod 16)])"

definition json_str :: "string \<Rightarrow> string" where
  "json_str s = CHR 0x22 # concat (map json_escape_char s) @ [CHR 0x22]"

fun json_of_pyval :: "pyval \<Rightarrow> string" where
  "json_of_pyval (PInt i) = py_str_int i"
| "json_of_pyval (PStr s) = json_str s"

text \<open>An item \<^verbatim>\<open>(name, value)\<close> of \<^verbatim>\<open>kwargs.items()\<close> is printed as a two-element array.\<close>

definition json_item :: "string \<times> pyval \<Rightarrow> string" where
  "json_item kv = ''['' @ json_str (fst kv) @ '', '' @ json_of_pyval (snd kv) @ '']''"

definition json_items :: "(string \<times> pyval) list \<Rightarrow> string" where
  "json_items kvs = ''['' @ py_join '', '' (map json_item kvs) @ '']''"

text \<open>
  \<^verbatim>\<open>sorted(kwargs.items())\<close>: the names of a dict are distinct, so the tuples are ordered by
  their names alone; Python compares strings by code point, which is the lexicographic
  order on \<open>string\<close>. Python's sort is stable, as \<open>sort_key\<close> is.
\<close>

definition sorted_items :: "(string \<times> pyval) list \<Rightarrow> (string \<times> pyval) list" where
  "sorted_items kwargs = sort_key fst kwargs"

text \<open>
  \<^verbatim>\<open>generate_cache_key(prefix, *args, **kwargs)\<close>. \<open>md5\<close> stands for
  \<^verbatim>\<open>hashlib.md5(s.encode()).hexdigest()\<close> and \<open>py_str\<close> for the builtin \<^verbatim>\<open>str\<close> on the tuple of
  positional arguments; both are parameters. \<open>key_string\<close> is
  \<^verbatim>\<open>json.dumps(key_data, sort_keys=True)\<close>: the three entries in the order of their names.
\<close>

definition key_string :: "('a \<Rightarrow> string) \<Rightarrow> string \<Rightarrow> 'a \<Rightarrow> (string \<times> pyval) list \<Rightarrow> string" where
  "key_string py_str prefix args kwargs =
     ''{'' @ json_str ''args'' @ '': '' @ json_str (py_str args) @ '', ''
       @ json_str ''kwargs'' @ '': ''
       @ json_items (if kwargs \<noteq> [] then sorted_items kwargs else []) @ '', ''
       @ json_str ''prefix'' @ '': '' @ json_str prefix @ ''}''"

definition generate_cache_key ::
    "(string \<Rightarrow> string) \<Rightarrow> ('a \<Rightarrow> string) \<Rightarrow> string \<Rightarrow> 'a \<Rightarrow> (string \<times> pyval) list \<Rightarrow> string" where
  "generate_cache_key md5 py_str prefix args kwargs =
     prefix @ '':'' @ md5 (key_string py_str prefix args kwargs)"

text \<open>The call sites pass no positional argument: \<^verbatim>\<open>str(())\<close> is \<^verbatim>\<open>()\<close>.\<close>

definition str_empty_tuple :: "unit \<Rightarrow> string" where
  "str_empty_tuple u = ''()''"

text \<open>\<^verbatim>\<open>get_document\<close>: \<^verbatim>\<open>generate_cache_key("document", document_id=..., user_id=...)\<close>.\<close>

definition document_cache_key :: "(string \<Rightarrow> string) \<Rightarrow> int \<Rightarrow> int \<Rightarrow> string" where
  "document_cache_key md5 document_id user_id =
     generate_cache_key md5 str_empty_tuple ''document'' ()
       [(''document_id'', PInt document_id), (''user_id'', PInt user_id)]"

text \<open>\<^verbatim>\<open>semantic_search\<close>: \<^verbatim>\<open>generate_cache_key("search", query=query.strip().lower())\<close>.\<close>

definition search_cache_key :: "(string \<Rightarrow> string) \<Rightarrow> string \<Rightarrow> string" where
  "search_cache_key md5 query =
     generate_cache_key md5 str_empty_tuple ''search'' () [(''query'', PStr (py_lower (py_strip query)))]"

text \<open>
  \<^verbatim>\<open>get_text_hash\<close> and the key of a summary:
  \<^verbatim>\<open>generate_cache_key("summary", text_hash=get_text_hash(text))\<close>.
\<close>

definition get_text_hash :: "(string \<Rightarrow> string) \<Rightarrow> string \<Rightarrow> string" where
  "get_text_hash md5 text = md5 (py_join '' '' (py_split (py_strip text)))"

definition summary_cache_key :: "(string \<Rightarrow> string) \<Rightarrow> string \<Rightarrow> string" where
  "summary_cache_key md5 text =
     generate_cache_key md5 str_empty_tuple ''summary'' () [(''text_hash'', PStr (get_text_hash md5 text))]"

section \<open>Cache reads and writes (app/cache.py)\<close>

text \<open>
  Exceptions are values: the class that decides which handler catches it, and the message.
  \<open>RuntimeError\<close> stands for any class that none of the handlers of this program names.
\<close>

datatype exn_class = RedisError | JSONDecodeError | TypeError | ValueError | RuntimeError | Exception

datatype exn = Raised exn_class string

fun exn_cls :: "exn \<Rightarrow> exn_class" where
  "exn_cls (Raised c m) = c"

fun exn_str :: "exn \<Rightarrow> string" where
  "exn_str (Raised c m) = m"

fun class_name :: "exn_class \<Rightarrow> string" where
  "class_name RedisError = ''RedisError''"
| "class_name JSONDecodeError = ''JSONDecodeError''"
| "class_name TypeError = ''TypeError''"
| "class_name ValueError = ''ValueError''"
| "class_name RuntimeError = ''RuntimeError''"
| "class_name Exception = ''Exception''"

text \<open>
  The Redis server as the program sees it at one call: whether a connection can be made
  (\<^verbatim>\<open>redis.Redis(...)\<close> and \<^verbatim>\<open>ping()\<close>), and the exception that \<^verbatim>\<open>client.get\<close> or
  \<^verbatim>\<open>client.setex\<close> raises for a key, if any.
\<close>

record redis_env =
  connect_ok :: bool
  get_raises :: "string \<Rightarrow> exn option"
  setex_raises :: "string \<Rightarrow> exn option"

text \<open>
  The state: the global \<^verbatim>\<open>redis_client\<close> (set or \<^verbatim>\<open>None\<close>) and the entries of the server,
  each with the time to live it was written with. Expiry needs a clock and is not modelled.
\<close>

record cache_state =
  redis_client :: bool
  store :: "string \<rightharpoonup> nat \<times> string"

text \<open>
  \<^verbatim>\<open>json.dumps(value, default=str)\<close> and \<^verbatim>\<open>json.loads\<close> for the type of the cached values are
  parameters; each returns a value or raises. \<^verbatim>\<open>json.loads\<close> returns \<open>None\<close> for \<^verbatim>\<open>null\<close>.
\<close>

record 'v json_codec =
  dumps :: "'v \<Rightarrow> exn + string"
  loads :: "string \<Rightarrow> exn + 'v option"

definition REDIS_CACHE_TTL :: nat where
  "REDIS_CACHE_TTL = 3600"

text \<open>\<^verbatim>\<open>get_redis_client\<close>: every exception of the connection attempt is caught.\<close>

definition get_redis_client :: "redis_env \<Rightarrow> cache_state \<Rightarrow> bool \<times> cache_state" where
  "get_redis_client env st =
     (if redis_client st then (True, st)
      else if connect_ok env then (True, st\<lparr>redis_client := True\<rparr>)
      else (False, st))"

text \<open>\<^verbatim>\<open>get_cache\<close>: the handler names \<^verbatim>\<open>redis.RedisError\<close> and \<^verbatim>\<open>json.JSONDecodeError\<close>.\<close>

definition get_cache_catches :: "exn \<Rightarrow> bool" where
  "get_cache_catches e = (exn_cls e = RedisError \<or> exn_cls e = JSONDecodeError)"

definition get_cache ::
    "'v json_codec \<Rightarrow> redis_env \<Rightarrow> cache_state \<Rightarrow> string \<Rightarrow> (exn + 'v option) \<times> cache_state" where
  "get_cache codec env st key =
     (case get_redis_client env st of
        (False, st1) \<Rightarrow> (Inr None, st1)
      | (True, st1) \<Rightarrow>
          (case get_raises env key of
             Some e \<Rightarrow> (if get_cache_catches e then Inr None else Inl e, st1)
           | None \<Rightarrow>
               (case store st1 key of
                  None \<Rightarrow> (Inr None, st1)
                | Some (ttl, cached_value) \<Rightarrow>
                    if cached_value = [] then (Inr None, st1)
                    else (case loads codec cached_value of
                            Inl e \<Rightarrow> (if get_cache_catches e then Inr None else Inl e, st1)
                          | Inr v \<Rightarrow> (Inr v, st1)))))"

text \<open>
  \<^verbatim>\<open>set_cache\<close>: the handler names \<^verbatim>\<open>redis.RedisError\<close> and \<^verbatim>\<open>TypeError\<close>.
  \<^verbatim>\<open>ttl or settings.REDIS_CACHE_TTL\<close> takes the default for \<^verbatim>\<open>None\<close> and for 0.
\<close>

definition set_cache_catches :: "exn \<Rightarrow> bool" where
  "set_cache_catches e = (exn_cls e = RedisError \<or> exn_cls e = TypeError)"

definition set_cache ::
    "'v json_codec \<Rightarrow> redis_env \<Rightarrow> cache_state \<Rightarrow> string \<Rightarrow> 'v \<Rightarrow> nat option
       \<Rightarrow> (exn + bool) \<times> cache_state" where
  "set_cache codec env st key v ttl =
     (case get_redis_client env st of
        (False, st1) \<Rightarrow> (Inr False, st1)
      | (True, st1) \<Rightarrow>
          (let ttl1 = (case ttl of None \<Rightarrow> REDIS_CACHE_TTL
                       | Some t \<Rightarrow> if t = 0 then REDIS_CACHE_TTL else t)
           in case dumps codec v of
                Inl e \<Rightarrow> (if set_cache_catches e then Inr False else Inl e, st1)
              | Inr json_value \<Rightarrow>
                  (case setex_raises env key of
                     Some e \<Rightarrow> (if set_cache_catches e then Inr False else Inl e, st1)
                   | None \<Rightarrow> (Inr True, st1\<lparr>store := (store st1)(key \<mapsto> (ttl1, json_value))\<rparr>))))"

section \<open>The store (app/models.py)\<close>

text \<open>
  The tables \<^verbatim>\<open>documents\<close> and \<^verbatim>\<open>users\<close> are maps from the primary key to the row; the
  table \<^verbatim>\<open>embeddings\<close> is the list of its rows. \<open>next_document_id\<close> is the sequence that
  numbers new documents. An embedding vector is a list of rationals: the numbers that the
  floating-point values stand for, without rounding.
\<close>

record document =
  d_user_id :: int
  d_filename :: string
  d_file_type :: string
  d_content :: "string option"
  d_summary :: "string option"
  d_status :: "string option"

record embedding_row =
  e_document_id :: int
  e_embedding :: "rat list"

record user_row =
  u_username :: string
  u_role :: string

record database =
  documents :: "int \<rightharpoonup> document"
  embeddings :: "embedding_row list"
  users :: "int \<rightharpoonup> user_row"
  next_document_id :: int

text \<open>
  The constructor \<^verbatim>\<open>Document(...)\<close>: the column \<^verbatim>\<open>status\<close> has the default \<^verbatim>\<open>"pending"\<close>,
  used when the caller gives no status.
\<close>

definition Document :: "int \<Rightarrow> string \<Rightarrow> string \<Rightarrow> string \<Rightarrow> string option \<Rightarrow> document" where
  "Document user_id filename file_type content status =
     \<lparr>d_user_id = user_id, d_filename = filename, d_file_type = file_type,
      d_content = Some content, d_summary = None,
      d_status = Some (case status of None \<Rightarrow> ''pending'' | Some s \<Rightarrow> s)\<rparr>"

definition status_of :: "database \<Rightarrow> int \<Rightarrow> string option" where
  "status_of db doc_id = (case documents db doc_id of None \<Rightarrow> None | Some doc \<Rightarrow> d_status doc)"

definition summary_of :: "database \<Rightarrow> int \<Rightarrow> string option" where
  "summary_of db doc_id = (case documents db doc_id of None \<Rightarrow> None | Some doc \<Rightarrow> d_summary doc)"

section \<open>Upload and background processing (app/api/documents.py)\<close>

datatype http_exception = HTTPException nat string

text \<open>\<^verbatim>\<open>filename.split(".")[-1]\<close>: what follows the last dot, or the whole name.\<close>

definition last_dot_part :: "string \<Rightarrow> string" where
  "last_dot_part filename = rev (takeWhile (\<lambda>c. c \<noteq> CHR ''.'') (rev filename))"

text \<open>
  \<^verbatim>\<open>upload_document\<close>. Reading the upload (PyMuPDF, docx2txt, decoding) is outside the
  program: \<open>read_result\<close> is the text that was read, or the HTTP error that the reading step
  raises. \<open>db_error\<close> is the message of the \<^verbatim>\<open>SQLAlchemyError\<close> of the insert, if it fails.
  The result is the new store and the id of the document, for which the background task is
  queued.
\<close>

definition upload_document ::
    "(http_exception + string) \<Rightarrow> string option \<Rightarrow> database \<Rightarrow> int \<Rightarrow> string
       \<Rightarrow> http_exception + database \<times> int" where
  "upload_document read_result db_error db current_user_id filename =
     (let ext = py_lower (last_dot_part filename)
      in if ext \<notin> set [''pdf'', ''docx'', ''txt'']
         then Inl (HTTPException 400 ''Unsupported file format'')
         else
           (case read_result of
              Inl e \<Rightarrow> Inl e
            | Inr text \<Rightarrow>
                if py_strip text = [] then Inl (HTTPException 400 ''Empty or unreadable document'')
                else
                  (case db_error of
                     Some db_err \<Rightarrow>
                       Inl (HTTPException 500 (''Database error while saving document: '' @ db_err))
                   | None \<Rightarrow>
                       (let doc = Document current_user_id filename ext text (Some ''processing'');
                            doc_id = next_document_id db
                        in Inr (db\<lparr>documents := (documents db)(doc_id \<mapsto> doc),
                                    next_document_id := doc_id + 1\<rparr>, doc_id)))))"

text \<open>
  The status that the outer handler of \<^verbatim>\<open>process_document_background\<close> writes: the class
  name and the message of the exception, cut to 500 characters.
\<close>

definition failure_status :: "exn \<Rightarrow> string" where
  "failure_status e =
     (let error_msg = ''failed: '' @ class_name (exn_cls e) @ '': '' @ exn_str e
      in if 500 < length error_msg then take 497 error_msg @ ''...'' else error_msg)"

text \<open>
  The outer handler: it looks the document up again and commits the failure status. The
  result is the list of the states that were committed.
\<close>

definition mark_failed :: "database \<Rightarrow> int \<Rightarrow> exn \<Rightarrow> database list" where
  "mark_failed db doc_id e =
     (case documents db doc_id of
        None \<Rightarrow> []
      | Some doc \<Rightarrow>
          [db\<lparr>documents := (documents db)(doc_id \<mapsto> doc\<lparr>d_status := Some (failure_status e)\<rparr>)\<rparr>])"

text \<open>
  \<^verbatim>\<open>process_document_background(doc_id, text, db_session_maker)\<close>. \<open>gen_summary\<close> and
  \<open>gen_embedding\<close> are \<^verbatim>\<open>generate_summary\<close> and \<^verbatim>\<open>generate_embedding\<close> as the task calls them:
  each returns a value or raises. \<open>save_raises\<close> is the exception of adding and committing
  the embedding row, if that fails. The result is the list of the committed states of the
  store, in order; the queries and the commits of the document row itself are taken to
  succeed, and the cache invalidations to return.
\<close>

definition process_document_background ::
    "(string \<Rightarrow> exn + string) \<Rightarrow> (string \<Rightarrow> exn + rat list) \<Rightarrow> exn option
       \<Rightarrow> database \<Rightarrow> int \<Rightarrow> string \<Rightarrow> database list" where
  "process_document_background gen_summary gen_embedding save_raises db doc_id text =
     (case gen_summary text of
        Inl summary_error \<Rightarrow>
          mark_failed db doc_id
            (Raised Exception (''Summary generation failed: '' @ exn_str summary_error))
      | Inr summary \<Rightarrow>
          (case gen_embedding text of
             Inl embedding_error \<Rightarrow>
               mark_failed db doc_id
                 (Raised Exception (''Embedding generation failed: '' @ exn_str embedding_error))
           | Inr embedding_vector \<Rightarrow>
               (case documents db doc_id of
                  None \<Rightarrow> []
                | Some doc \<Rightarrow>
                    (let doc1 = doc\<lparr>d_summary := Some summary, d_status := Some ''completed''\<rparr>;
                         db1 = db\<lparr>documents := (documents db)(doc_id \<mapsto> doc1)\<rparr>
                     in case save_raises of
                          None \<Rightarrow>
                            [db1,
                             db1\<lparr>embeddings := embeddings db1
                                   @ [\<lparr>e_document_id = doc_id, e_embedding = embedding_vector\<rparr>]\<rparr>]
                        | Some embedding_save_error \<Rightarrow>
                            [db1,
                             db1\<lparr>documents := (documents db1)(doc_id \<mapsto>
                                   doc1\<lparr>d_status := Some (''completed (embedding save failed: ''
                                            @ exn_str embedding_save_error @ '')'')\<rparr>)\<rparr>]))))"

text \<open>The store after the task: the last committed state, or the initial one.\<close>

definition final_database :: "database \<Rightarrow> database list \<Rightarrow> database" where
  "final_database db commits = last (db # commits)"

text \<open>
  The phases of the specification, read off the status string: a status that starts with
  \<^verbatim>\<open>completed\<close> is of the completed class, one that starts with \<^verbatim>\<open>failed\<close> of the failed
  class. \<open>spec_transition\<close> follows the specification's words: a status keeps its phase, or moves
  from pending to processing, or from processing to completed or failed.
\<close>

datatype phase = Pending | Processing | Completed | Failed | Unknown

definition status_phase :: "string option \<Rightarrow> phase" where
  "status_phase s =
     (case s of
        None \<Rightarrow> Unknown
      | Some t \<Rightarrow>
          if t = ''pending'' then Pending
          else if t = ''processing'' then Processing
          else if take 9 t = ''completed'' then Completed
          else if take 6 t = ''failed'' then Failed
          else Unknown)"

definition spec_transition :: "phase \<Rightarrow> phase \<Rightarrow> bool" where
  "spec_transition p q =
     (p = q \<or> (p = Pending \<and> q = Processing) \<or> (p = Processing \<and> (q = Completed \<or> q = Failed)))"

section \<open>Semantic search (app/api/documents.py)\<close>

record search_result =
  r_id :: int
  r_filename :: string
  r_summary :: "string option"
  r_username :: string
  r_similarity :: rat

record response =
  message :: "string option"
  results :: "search_result list"

text \<open>
  The SQL query: the join of embeddings, documents and users, ordered by the distance
  \<^verbatim>\<open>e.embedding <=> query_vector\<close> (pgvector's cosine distance, a parameter), the first 10
  rows, each with the similarity \<^verbatim>\<open>1 - distance\<close>. SQL leaves the order of rows at the same
  distance open; the model keeps them in the order of the table.
\<close>

definition joined_rows :: "database \<Rightarrow> (embedding_row \<times> document \<times> user_row) list" where
  "joined_rows db =
     concat (map (\<lambda>e. case documents db (e_document_id e) of
                         None \<Rightarrow> []
                       | Some d \<Rightarrow> (case users db (d_user_id d) of
                                      None \<Rightarrow> []
                                    | Some u \<Rightarrow> [(e, d, u)]))
                 (embeddings db))"

definition search_rows :: "(rat list \<Rightarrow> rat list \<Rightarrow> rat) \<Rightarrow> database \<Rightarrow> rat list \<Rightarrow> search_result list" where
  "search_rows distance db query_vector =
     map (\<lambda>(e, d, u). \<lparr>r_id = e_document_id e, r_filename = d_filename d,
                        r_summary = d_summary d, r_username = u_username u,
                        r_similarity = 1 - distance (e_embedding e) query_vector\<rparr>)
         (take 10 (sort_key (\<lambda>(e, d, u). distance (e_embedding e) query_vector) (joined_rows db)))"

text \<open>
  \<^verbatim>\<open>round(x, 4)\<close>: the nearest multiple of one ten-thousandth, a tie going to the even
  multiple.
\<close>

definition round_half_even :: "rat \<Rightarrow> int" where
  "round_half_even x =
     (let f = \<lfloor>x\<rfloor>; d = x - of_int f
      in if d < 1 / 2 then f else if 1 / 2 < d then f + 1 else if even f then f else f + 1)"

definition py_round4 :: "rat \<Rightarrow> rat" where
  "py_round4 x = of_int (round_half_even (x * 10000)) / 10000"

text \<open>
  \<^verbatim>\<open>semantic_search\<close>. \<open>generate_embedding\<close> returns the vector or raises. Every exception other than an
  \<^verbatim>\<open>HTTPException\<close>, also one that a cache operation lets through, becomes the HTTP error 500
  \<^verbatim>\<open>Search failed\<close>. \<open>respond\<close> is the common end of the three branches that answer:
  \<^verbatim>\<open>set_cache(cache_key, response, ttl)\<close> and \<^verbatim>\<open>return response\<close>.
\<close>

definition search_failed :: "exn \<Rightarrow> http_exception" where
  "search_failed e = HTTPException 500 (''Search failed: '' @ exn_str e)"

definition respond ::
    "response json_codec \<Rightarrow> redis_env \<Rightarrow> cache_state \<Rightarrow> string \<Rightarrow> response \<Rightarrow> nat option
       \<Rightarrow> (http_exception + response) \<times> cache_state" where
  "respond codec env st cache_key resp ttl =
     (case set_cache codec env st cache_key resp ttl of
        (Inl e, st1) \<Rightarrow> (Inl (search_failed e), st1)
      | (Inr b, st1) \<Rightarrow> (Inr resp, st1))"

definition semantic_search ::
    "(string \<Rightarrow> string) \<Rightarrow> (string \<Rightarrow> exn + rat list) \<Rightarrow> (rat list \<Rightarrow> rat list \<Rightarrow> rat)
       \<Rightarrow> response json_codec \<Rightarrow> redis_env \<Rightarrow> cache_state \<Rightarrow> database \<Rightarrow> string
       \<Rightarrow> (http_exception + response) \<times> cache_state" where
  "semantic_search md5 generate_embedding distance codec env st db query =
     (if py_strip query = [] then (Inl (HTTPException 400 ''Query cannot be empty''), st)
      else
        (let cache_key = search_cache_key md5 query
         in case get_cache codec env st cache_key of
              (Inl e, st1) \<Rightarrow> (Inl (search_failed e), st1)
            | (Inr (Some cached_result), st1) \<Rightarrow> (Inr cached_result, st1)
            | (Inr None, st1) \<Rightarrow>
                (case generate_embedding query of
                   Inl e \<Rightarrow> (Inl (search_failed e), st1)
                 | Inr query_embedding \<Rightarrow>
                     if query_embedding = []
                     then (Inl (HTTPException 500 ''Failed to generate query embedding''), st1)
                     else
                       (let rows = search_rows distance db query_embedding
                        in if rows = []
                           then respond codec env st1 cache_key
                                  \<lparr>message = Some ''No results found'', results = []\<rparr> (Some 300)
                           else
                             (let filtered_results =
                                    map (\<lambda>r. r\<lparr>r_similarity := py_round4 (r_similarity r)\<rparr>)
                                        (filter (\<lambda>r. 1 / 5 < r_similarity r) rows)
                              in if filtered_results = []
                                 then respond codec env st1 cache_key
                                        \<lparr>message = Some ''No relevant results found'', results = []\<rparr>
                                        (Some 300)
                                 else respond codec env st1 cache_key
                                        \<lparr>message = None, results = filtered_results\<rparr> None)))))"

text \<open>
  The list comprehension of \<^verbatim>\<open>semantic_search\<close>: the rows above the floor, each with its
  similarity rounded.
\<close>

definition returned :: "search_result list \<Rightarrow> search_result list" where
  "returned rows = map (\<lambda>r. r\<lparr>r_similarity := py_round4 (r_similarity r)\<rparr>)
                      (filter (\<lambda>r. 1 / 5 < r_similarity r) rows)"

section \<open>Summaries (app/ai_model/ai.py)\<close>

text \<open>
  The summarization pipeline is a parameter: called with a text, \<^verbatim>\<open>max_length\<close> and
  \<^verbatim>\<open>min_length\<close>, it returns the summary text or raises. \<^verbatim>\<open>get_summarizer()\<close> returns the
  pipeline or raises while loading the model.
\<close>

type_synonym summarizer = "string \<Rightarrow> nat \<Rightarrow> nat \<Rightarrow> exn + string"

text \<open>
  The loop over the chunks. The result is the list \<^verbatim>\<open>summaries\<close> and the list of the texts
  that were passed to the pipeline, in order.
\<close>

fun summarize_chunks :: "summarizer \<Rightarrow> string list \<Rightarrow> string list \<times> string list" where
  "summarize_chunks summarizer [] = ([], [])"
| "summarize_chunks summarizer (chunk # rest) =
     (let chunk_words = length (py_split chunk);
          (summaries, calls) = summarize_chunks summarizer rest
      in if chunk_words < 30 then (chunk # summaries, calls)
         else (case summarizer chunk (min 150 (max 60 (chunk_words div 3))) 30 of
                 Inr summary_text \<Rightarrow> (summary_text # summaries, chunk # calls)
               | Inl e \<Rightarrow> (take 200 chunk # summaries, chunk # calls)))"

text \<open>The final compression, for a concatenation of more than 250 words.\<close>

definition compress_summary :: "summarizer \<Rightarrow> string \<Rightarrow> string \<times> string list" where
  "compress_summary summarizer final_summary =
     (if 250 < length (py_split final_summary)
      then (case summarizer final_summary 200 60 of
              Inr summary_text \<Rightarrow> (summary_text, [final_summary])
            | Inl e \<Rightarrow> (py_join '' '' (take 200 (py_split final_summary)), [final_summary]))
      else (final_summary, []))"

text \<open>
  The cache check at the start of \<^verbatim>\<open>generate_summary\<close>: a cached summary is returned when it
  is not empty; every exception of the check is caught and generation goes on.
\<close>

definition check_summary_cache ::
    "(string \<Rightarrow> string) \<Rightarrow> string json_codec \<Rightarrow> redis_env \<Rightarrow> cache_state \<Rightarrow> string
       \<Rightarrow> string option \<times> cache_state" where
  "check_summary_cache md5 codec env st text =
     (case get_cache codec env st (summary_cache_key md5 text) of
        (Inr (Some cached_summary), st1) \<Rightarrow>
          (if cached_summary \<noteq> [] then Some cached_summary else None, st1)
      | (Inr None, st1) \<Rightarrow> (None, st1)
      | (Inl e, st1) \<Rightarrow> (None, st1))"

text \<open>
  \<^verbatim>\<open>generate_summary(text, use_cache)\<close>. The result is the summary or the exception of
  \<^verbatim>\<open>get_summarizer()\<close>, the state of the cache, and the texts passed to the pipeline.
  \<open>text1\<close> is the variable \<^verbatim>\<open>text\<close> after the truncation to \<^verbatim>\<open>MAX_INPUT_WORDS\<close> words: the
  source assigns the truncated text to \<^verbatim>\<open>text\<close>, and the key under which the result is stored
  is computed from that variable.
\<close>

definition generate_summary ::
    "(string \<Rightarrow> string) \<Rightarrow> (string \<Rightarrow> string list) \<Rightarrow> exn + summarizer \<Rightarrow> string json_codec
       \<Rightarrow> redis_env \<Rightarrow> cache_state \<Rightarrow> string \<Rightarrow> bool
       \<Rightarrow> (exn + string) \<times> cache_state \<times> string list" where
  "generate_summary md5 sent_tokenize get_summarizer codec env st text use_cache =
     (if py_strip text = [] then (Inr [], st, [])
      else
        (case (if use_cache then check_summary_cache md5 codec env st text else (None, st)) of
           (Some cached_summary, st1) \<Rightarrow> (Inr cached_summary, st1, [])
         | (None, st1) \<Rightarrow>
             (let words = py_split text;
                  text1 = (if MAX_INPUT_WORDS < length words
                           then py_join '' '' (take MAX_INPUT_WORDS words) else text);
                  chunks = chunk_text sent_tokenize text1 CHUNK_MAX_WORDS
              in if chunks = [] then (Inr (take 500 text1), st1, [])
                 else
                   (case get_summarizer of
                      Inl e \<Rightarrow> (Inl e, st1, [])
                    | Inr summarizer \<Rightarrow>
                        (let (summaries, calls) = summarize_chunks summarizer chunks;
                             (final_summary, calls2) =
                               compress_summary summarizer (py_join '' '' summaries);
                             st2 = (if use_cache
                                    then snd (set_cache codec env st1 (summary_cache_key md5 text1)
                                                final_summary (Some 86400))
                                    else st1)
                         in (Inr final_summary, st2, calls @ calls2))))))"

section \<open>Example inputs\<close>

text \<open>
  A store with one user and one uploaded document, the same store before the upload and with
  an embedding for the document; a codec for responses, a reachable Redis server without
  faults, and the state of a process that has not connected yet, with no entries.
\<close>

definition example_db :: database where
  "example_db =
     \<lparr>documents = [1 \<mapsto> Document 7 ''note.txt'' ''txt'' ''Short note.'' (Some ''processing'')],
      embeddings = [], users = [7 \<mapsto> \<lparr>u_username = ''ann'', u_role = ''user''\<rparr>],
      next_document_id = 2\<rparr>"

definition empty_db :: database where
  "empty_db = \<lparr>documents = Map.empty, embeddings = [],
                users = [7 \<mapsto> \<lparr>u_username = ''ann'', u_role = ''user''\<rparr>], next_document_id = 1\<rparr>"

definition search_db :: database where
  "search_db = example_db\<lparr>embeddings := [\<lparr>e_document_id = 1, e_embedding = [1, 0]\<rparr>]\<rparr>"

definition plain_codec :: "response json_codec" where
  "plain_codec = \<lparr>dumps = (\<lambda>r. Inr ''{}''), loads = (\<lambda>s. Inr None)\<rparr>"

definition redis_up :: redis_env where
  "redis_up = \<lparr>connect_ok = True, get_raises = (\<lambda>k. None), setex_raises = (\<lambda>k. None)\<rparr>"

definition empty_cache :: cache_state where
  "empty_cache = \<lparr>redis_client = False, store = Map.empty\<rparr>"

text \<open>
  A text of \<open>n\<close> words without a sentence boundary, a tokenizer that returns such a text as
  one sentence, a pipeline that answers every text with the same short summary, and a codec
  for summaries.
\<close>

definition words_text :: "nat \<Rightarrow> string" where
  "words_text n = py_join '' '' (replicate n ''w'')"

definition one_sentence :: "string \<Rightarrow> string list" where
  "one_sentence t = [t]"

definition short_summarizer :: summarizer where
  "short_summarizer t max_length min_length = Inr ''short''"

definition text_codec :: "string json_codec" where
  "text_codec = \<lparr>dumps = (\<lambda>v. Inr (json_str v)), loads = (\<lambda>s. Inr (Some s))\<rparr>"

text \<open>
  The cache after a first summary of \<open>words_text 3001\<close>: one entry, under the key of the
  truncated text.
\<close>

definition populated_cache :: "(string \<Rightarrow> string) \<Rightarrow> cache_state" where
  "populated_cache md5 =
     \<lparr>redis_client = True,
      store = [summary_cache_key md5 (words_text 3000) \<mapsto> (86400, json_str ''short'')]\<rparr>"

section \<open>Properties of splitting and joining\<close>

lemma split_from_space:
  "split_from w (a @ CHR '' '' # b) = split_from w a @ split_from [] b"
  by (induction a arbitrary: w) (simp_all add: py_isspace_def)

lemma py_split_space: "py_split (a @ CHR '' '' # b) = py_split a @ py_split b"
  by (simp add: py_split_def split_from_space)

lemma py_split_join: "py_split (py_join '' '' xs) = concat (map py_split xs)"
proof (induction xs rule: induct_list012)
  case 1
  show ?case by (simp add: py_split_def)
next
  case (2 x)
  show ?case by simp
next
  case (3 x y zs)
  then show ?case by (simp add: py_split_space)
qed

section \<open>Chunking keeps sentences whole\<close>

lemma chunk_loop_groups:
  assumes "chunks = map (py_join '' '') gs" and "[] \<notin> set gs"
  shows "\<exists>gs' cur' n'. chunk_loop m ss (chunks, cur, n) = (map (py_join '' '') gs', cur', n')
           \<and> [] \<notin> set gs' \<and> concat gs' @ cur' = concat gs @ cur @ ss"
  using assms
proof (induction ss arbitrary: chunks cur n gs)
  case Nil
  then show ?case by auto
next
  case (Cons s ss)
  show ?case
  proof (cases "n + length (py_split s) \<le> m")
    case True
    from Cons.IH[OF Cons.prems, of "cur @ [s]" "n + length (py_split s)"] True
    show ?thesis by simp
  next
    case False
    show ?thesis
    proof (cases "cur = []")
      case True
      from Cons.IH[OF Cons.prems, of "[s]" "length (py_split s)"] True False
      show ?thesis by simp
    next
      case nonempty: False
      have c: "chunks @ [py_join '' '' cur] = map (py_join '' '') (gs @ [cur])"
        using Cons.prems by simp
      have e: "[] \<notin> set (gs @ [cur])" using Cons.prems nonempty by auto
      from Cons.IH[OF c e, of "[s]" "length (py_split s)"] nonempty False
      show ?thesis by simp
    qed
  qed
qed

text \<open>
  Claim C5. Chunking never splits a sentence: the chunks are the joins (with one space) of
  non-empty groups of consecutive sentences, and the groups concatenated in order are exactly
  the sentence sequence of the input, so every sentence lies in exactly one chunk.
\<close>

theorem chunk_text_whole_sentences:
  "\<exists>groups. concat groups = sent_tokenize text \<and> [] \<notin> set groups
      \<and> chunk_text sent_tokenize text max_words = map (py_join '' '') groups"
proof -
  obtain gs' cur' n' where
    r: "chunk_loop max_words (sent_tokenize text) ([], [], 0) = (map (py_join '' '') gs', cur', n')"
    and ne: "[] \<notin> set gs'" and cc: "concat gs' @ cur' = sent_tokenize text"
    using chunk_loop_groups[of "[]" "[]" max_words "sent_tokenize text" "[]" 0] by auto
  show ?thesis
  proof (cases "cur' = []")
    case True
    with r ne cc show ?thesis by (intro exI[of _ gs']) (simp add: chunk_text_def)
  next
    case False
    with r ne cc show ?thesis by (intro exI[of _ "gs' @ [cur']"]) (simp add: chunk_text_def)
  qed
qed

section \<open>The word budget of a chunk\<close>

lemma chunk_loop_budget:
  assumes "n = length (concat (map py_split cur))"
    and "\<forall>c\<in>set chunks. within_budget m S c"
    and "n \<le> m \<or> (\<exists>s. cur = [s])"
    and "set cur \<subseteq> S" and "set ss \<subseteq> S"
    and "chunk_loop m ss (chunks, cur, n) = (chunks', cur', n')"
  shows "n' = length (concat (map py_split cur')) \<and> (\<forall>c\<in>set chunks'. within_budget m S c)
          \<and> (n' \<le> m \<or> (\<exists>s. cur' = [s])) \<and> set cur' \<subseteq> S"
  using assms
proof (induction ss arbitrary: chunks cur n)
  case Nil
  then show ?case by auto
next
  case (Cons s ss)
  show ?case
  proof (cases "n + length (py_split s) \<le> m")
    case True
    show ?thesis
      by (rule Cons.IH[of "n + length (py_split s)" "cur @ [s]" chunks])
         (use Cons.prems True in auto)
  next
    case False
    have q: "within_budget m S (py_join '' '' cur)" if "cur \<noteq> []"
    proof (cases "n \<le> m")
      case True
      then show ?thesis using Cons.prems(1) by (simp add: within_budget_def py_split_join)
    next
      case False
      then obtain s' where "cur = [s']" using Cons.prems(3) by auto
      then show ?thesis using False Cons.prems(1,4) by (simp add: within_budget_def)
    qed
    show ?thesis
      by (rule Cons.IH[of "length (py_split s)" "[s]"
            "if cur \<noteq> [] then chunks @ [py_join '' '' cur] else chunks"])
         (use Cons.prems False q in \<open>auto split: if_splits\<close>)
  qed
qed

text \<open>
  Claim C6, as the code has it. Every chunk has at most \<open>max_words\<close> words, or it consists of
  one single sentence that has more than \<open>max_words\<close> words by itself: the loop never splits a
  sentence, so an oversized sentence becomes a chunk of its own.
\<close>

theorem chunk_text_budget_or_single_sentence:
  "\<forall>c\<in>set (chunk_text sent_tokenize text max_words).
     length (py_split c) \<le> max_words
     \<or> (c \<in> set (sent_tokenize text) \<and> max_words < length (py_split c))"
proof -
  obtain chunks cur n where
    r: "chunk_loop max_words (sent_tokenize text) ([], [], 0) = (chunks, cur, n)"
    by (cases "chunk_loop max_words (sent_tokenize text) ([], [], 0)") auto
  have inv: "n = length (concat (map py_split cur))
      \<and> (\<forall>c\<in>set chunks. within_budget max_words (set (sent_tokenize text)) c)
      \<and> (n \<le> max_words \<or> (\<exists>s. cur = [s])) \<and> set cur \<subseteq> set (sent_tokenize text)"
    by (rule chunk_loop_budget[OF _ _ _ _ _ r]) auto
  have last: "within_budget max_words (set (sent_tokenize text)) (py_join '' '' cur)"
  proof (cases "n \<le> max_words")
    case True
    then show ?thesis using inv by (simp add: within_budget_def py_split_join)
  next
    case False
    then obtain s where "cur = [s]" using inv by auto
    then show ?thesis using False inv by (simp add: within_budget_def)
  qed
  have "\<forall>c\<in>set (chunk_text sent_tokenize text max_words).
          within_budget max_words (set (sent_tokenize text)) c"
    using inv last by (auto simp: chunk_text_def r)
  then show ?thesis by (simp add: within_budget_def)
qed

lemma word_count_replicate:
  "length (py_split (py_join '' '' (replicate n ''w''))) = n"
proof -
  have w: "py_split ''w'' = [''w'']"
    by (simp add: py_split_def py_isspace_def)
  show ?thesis
    by (simp add: py_split_join w length_concat sum_list_replicate)
qed

text \<open>
  Claim C6 as stated fails: a text of 301 words without a sentence boundary is one sentence,
  and it comes back as one chunk of 301 words, above the budget of 300.
\<close>

theorem chunk_text_budget_counterexample:
  "\<not> (\<forall>c\<in>set (chunk_text (\<lambda>t. [t]) (py_join '' '' (replicate 301 ''w'')) CHUNK_MAX_WORDS).
        length (py_split c) \<le> CHUNK_MAX_WORDS)"
  by (simp add: chunk_text_def CHUNK_MAX_WORDS_def word_count_replicate)

theorem chunk_text_budget_or_single_sentence_witness:
  "''a b'' \<in> set (chunk_text (\<lambda>t. [t]) ''a b'' 1)
   \<and> (length (py_split ''a b'') \<le> 1
        \<or> (''a b'' \<in> set [''a b''] \<and> 1 < length (py_split ''a b'')))"
proof -
  have m: "''a b'' \<in> set (chunk_text (\<lambda>t. [t]) ''a b'' 1)"
    by (simp add: chunk_text_def py_split_def py_isspace_def)
  show ?thesis
    using m chunk_text_budget_or_single_sentence[of "\<lambda>t. [t]" "''a b''" 1] by blast
qed

section \<open>The cache key does not depend on the order of the keyword arguments\<close>

lemma filter_key_distinct:
  assumes "distinct (map fst xs)" and "k \<in> set xs"
  shows "filter (\<lambda>x. fst k = fst x) xs = [k]"
  using assms
proof (induction xs)
  case Nil
  then show ?case by simp
next
  case (Cons a xs)
  show ?case
  proof (cases "k = a")
    case True
    have "filter (\<lambda>x. fst a = fst x) xs = []"
      using Cons.prems(1) by (auto simp: filter_empty_conv image_iff)
    with True show ?thesis by simp
  next
    case False
    then have k: "k \<in> set xs" using Cons.prems(2) by simp
    then have "fst k \<noteq> fst a" using Cons.prems(1) by (auto simp: image_iff)
    with Cons.IH k Cons.prems(1) show ?thesis by simp
  qed
qed

lemma sorted_items_permutation:
  assumes d: "distinct (map fst kwargs)" and m: "mset kwargs' = mset kwargs"
  shows "sorted_items kwargs' = sorted_items kwargs"
proof -
  have d': "distinct (map fst kwargs')"
    using d m by (metis distinct_map mset_eq_imp_distinct_iff mset_eq_setD inj_on_cong)
  let ?ys = "sort_key fst kwargs'"
  have "sort_key fst kwargs = ?ys"
  proof (rule properties_for_sort_key)
    show "mset ?ys = mset kwargs" using m by simp
    show "sorted (map fst ?ys)" by simp
    fix k assume "k \<in> set ?ys"
    then have k': "k \<in> set kwargs'" by simp
    then have k: "k \<in> set kwargs" using m by (metis mset_eq_setD)
    have dy: "distinct (map fst ?ys)" using d' by (simp add: distinct_map)
    show "filter (\<lambda>x. fst k = fst x) ?ys = filter (\<lambda>x. fst k = fst x) kwargs"
      using filter_key_distinct[OF dy] filter_key_distinct[OF d k] k' by simp
  qed
  then show ?thesis by (simp add: sorted_items_def)
qed

text \<open>
  Claim C7. For every prefix, every tuple of positional arguments and every dict of keyword
  arguments (an association list with distinct names), two calls whose keyword arguments are
  the same name and value pairs in another order derive the same key.
\<close>

theorem generate_cache_key_kwargs_order:
  assumes "distinct (map fst kwargs)" and "mset kwargs' = mset kwargs"
  shows "generate_cache_key md5 py_str prefix args kwargs'
           = generate_cache_key md5 py_str prefix args kwargs"
proof -
  have s: "sorted_items kwargs' = sorted_items kwargs"
    using assms by (rule sorted_items_permutation)
  have e: "kwargs' = [] \<longleftrightarrow> kwargs = []"
    using assms(2) by (metis mset_zero_iff)
  show ?thesis
    by (simp add: generate_cache_key_def key_string_def s e)
qed

theorem generate_cache_key_kwargs_order_witness:
  "distinct (map fst [(''user_id'', PInt 7), (''document_id'', PInt 5)])
   \<and> mset [(''document_id'', PInt 5), (''user_id'', PInt 7)]
       = mset [(''user_id'', PInt 7), (''document_id'', PInt 5)]
   \<and> generate_cache_key (\<lambda>s. s) str_empty_tuple ''document'' ()
        [(''document_id'', PInt 5), (''user_id'', PInt 7)]
       = generate_cache_key (\<lambda>s. s) str_empty_tuple ''document'' ()
        [(''user_id'', PInt 7), (''document_id'', PInt 5)]"
proof -
  have d: "distinct (map fst [(''user_id'', PInt 7), (''document_id'', PInt 5)])" by simp
  have m: "mset [(''document_id'', PInt 5), (''user_id'', PInt 7)]
       = mset [(''user_id'', PInt 7), (''document_id'', PInt 5)]" by (simp add: add.commute)
  have k: "generate_cache_key (\<lambda>s. s) str_empty_tuple ''document'' ()
        [(''document_id'', PInt 5), (''user_id'', PInt 7)]
       = generate_cache_key (\<lambda>s. s) str_empty_tuple ''document'' ()
        [(''user_id'', PInt 7), (''document_id'', PInt 5)]"
    by (rule generate_cache_key_kwargs_order[OF d m])
  show ?thesis
    using d m k by (intro conjI)
qed

section \<open>Integers print injectively\<close>

lemma digits_value_digits10: "digits_value (digits10 n) = n"
proof (induction n rule: digits10.induct)
  case (1 n)
  show ?case
  proof (cases "n < 10")
    case True
    then show ?thesis
      by (subst digits10.simps) (simp add: digits_value_def digit_char_def)
  next
    case False
    have m: "n mod 10 < 10" by simp
    have "digits_value (digits10 n) = 10 * digits_value (digits10 (n div 10)) + n mod 10"
      using False m by (subst digits10.simps) (simp add: digits_value_def digit_char_def)
    with 1 False show ?thesis by simp
  qed
qed

lemma digits10_inj: "digits10 a = digits10 b \<Longrightarrow> a = b"
  by (metis digits_value_digits10)

lemma minus_notin_digits10: "CHR ''-'' \<notin> set (digits10 n)"
proof (induction n rule: digits10.induct)
  case (1 n)
  have d: "k < 10 \<Longrightarrow> CHR ''-'' \<noteq> digit_char k" for k
  proof
    assume k: "k < 10" and "CHR ''-'' = digit_char k"
    then have "(of_char (CHR ''-'') :: nat) = of_char (digit_char k)" by simp
    with k show False by (simp add: digit_char_def)
  qed
  show ?case
  proof (cases "n < 10")
    case True
    then show ?thesis using d[of n] by (subst digits10.simps) simp
  next
    case False
    then show ?thesis using 1 d[of "n mod 10"] by (subst digits10.simps) simp
  qed
qed

lemma digits10_not_Nil: "digits10 n \<noteq> []"
  by (subst digits10.simps) simp

lemma py_str_int_inj: "py_str_int a = py_str_int b \<Longrightarrow> a = b"
proof -
  assume e: "py_str_int a = py_str_int b"
  have h: "hd (digits10 n) \<noteq> CHR ''-''" for n
    using minus_notin_digits10[of n] digits10_not_Nil[of n] by (metis hd_in_set)
  show "a = b"
  proof (cases "a < 0")
    case an: True
    show ?thesis
    proof (cases "b < 0")
      case True
      with an e have "nat (- a) = nat (- b)" by (simp add: py_str_int_def digits10_inj)
      with an True show ?thesis by simp
    next
      case False
      with an e have "CHR ''-'' # digits10 (nat (- a)) = digits10 (nat b)"
        by (simp add: py_str_int_def)
      then have "hd (digits10 (nat b)) = CHR ''-''" by (metis list.sel(1))
      with h show ?thesis by simp
    qed
  next
    case ap: False
    show ?thesis
    proof (cases "b < 0")
      case True
      with ap e have "digits10 (nat a) = CHR ''-'' # digits10 (nat (- b))"
        by (simp add: py_str_int_def)
      then have "hd (digits10 (nat a)) = CHR ''-''" by (metis list.sel(1))
      with h show ?thesis by simp
    next
      case False
      with ap e have "nat a = nat b" by (simp add: py_str_int_def digits10_inj)
      with ap False show ?thesis by simp
    qed
  qed
qed

section \<open>The key of a document view\<close>

lemma sorted_items_document:
  "sorted_items [(''document_id'', PInt d), (''user_id'', PInt u)]
     = [(''document_id'', PInt d), (''user_id'', PInt u)]"
  by (simp add: sorted_items_def)

lemma store_get_redis_client: "store (snd (get_redis_client env st)) = store st"
  by (simp add: get_redis_client_def)

lemma get_redis_client_set_cache:
  "get_redis_client env (snd (set_cache codec' env st k1 v ttl))
     = (fst (get_redis_client env st),
        (snd (get_redis_client env st))\<lparr>store := store (snd (set_cache codec' env st k1 v ttl))\<rparr>)"
  by (simp add: set_cache_def get_redis_client_def Let_def split: option.splits sum.splits)

lemma store_set_cache_other:
  "k1 \<noteq> k2 \<Longrightarrow> store (snd (set_cache codec' env st k1 v ttl)) k2 = store st k2"
  by (simp add: set_cache_def get_redis_client_def Let_def split: option.splits sum.splits)

lemma get_cache_depends:
  assumes "fst (get_redis_client env st) = fst (get_redis_client env st')"
    and "store (snd (get_redis_client env st)) k = store (snd (get_redis_client env st')) k"
  shows "fst (get_cache codec env st k) = fst (get_cache codec env st' k)"
  using assms
  by (cases "get_redis_client env st"; cases "get_redis_client env st'")
     (auto simp: get_cache_def split: option.splits sum.splits bool.splits)

lemma get_after_set_other_key:
  assumes "k1 \<noteq> k2"
  shows "fst (get_cache codec env (snd (set_cache codec' env st k1 v ttl)) k2)
           = fst (get_cache codec env st k2)"
proof (rule get_cache_depends)
  show "fst (get_redis_client env (snd (set_cache codec' env st k1 v ttl)))
          = fst (get_redis_client env st)"
    by (simp add: get_redis_client_set_cache)
  show "store (snd (get_redis_client env (snd (set_cache codec' env st k1 v ttl)))) k2
          = store (snd (get_redis_client env st)) k2"
    using assms by (simp add: store_get_redis_client store_set_cache_other)
qed

lemma bracket_notin_digits10: "CHR '']'' \<notin> set (digits10 n)"
proof (induction n rule: digits10.induct)
  case (1 n)
  have d: "k < 10 \<Longrightarrow> CHR '']'' \<noteq> digit_char k" for k
  proof
    assume k: "k < 10" and "CHR '']'' = digit_char k"
    then have "(of_char (CHR '']'') :: nat) = of_char (digit_char k)" by simp
    with k show False by (simp add: digit_char_def)
  qed
  show ?case
  proof (cases "n < 10")
    case True
    then show ?thesis using d[of n] by (subst digits10.simps) simp
  next
    case False
    then show ?thesis using 1 d[of "n mod 10"] by (subst digits10.simps) simp
  qed
qed

lemma bracket_notin_py_str_int: "CHR '']'' \<notin> set (py_str_int i)"
  by (simp add: py_str_int_def bracket_notin_digits10)

lemma takeWhile_separator: "s \<notin> set a \<Longrightarrow> takeWhile (\<lambda>c. c \<noteq> s) (a @ s # x) = a"
  by (induction a) auto

lemma split_at_separator:
  assumes "s \<notin> set a" and "s \<notin> set b" and "a @ s # x = b @ s # y"
  shows "a = b \<and> x = y"
proof -
  have "takeWhile (\<lambda>c. c \<noteq> s) (a @ s # x) = takeWhile (\<lambda>c. c \<noteq> s) (b @ s # y)"
    using assms(3) by (rule arg_cong)
  then have "a = b"
    by (simp only: takeWhile_separator[OF assms(1)] takeWhile_separator[OF assms(2)])
  with assms(3) show ?thesis by simp
qed

lemma document_key_string_shape:
  "key_string str_empty_tuple ''document'' () [(''document_id'', PInt d), (''user_id'', PInt u)]
     = (''{'' @ json_str ''args'' @ '': '' @ json_str (str_empty_tuple ()) @ '', ''
          @ json_str ''kwargs'' @ '': '' @ ''[['' @ json_str ''document_id'' @ '', '')
       @ py_str_int d @ CHR '']'' # ('', ['' @ json_str ''user_id'' @ '', '')
       @ py_str_int u @ CHR '']'' # ('']'' @ '', '' @ json_str ''prefix'' @ '': ''
          @ json_str ''document'' @ ''}'')"
  by (simp add: key_string_def json_items_def json_item_def sorted_items_document)

lemma document_key_string_inj_both:
  assumes "key_string str_empty_tuple ''document'' () [(''document_id'', PInt d1), (''user_id'', PInt u1)]
     = key_string str_empty_tuple ''document'' () [(''document_id'', PInt d2), (''user_id'', PInt u2)]"
  shows "d1 = d2 \<and> u1 = u2"
proof -
  let ?Q = "'', ['' @ json_str ''user_id'' @ '', ''"
  let ?S = "'']'' @ '', '' @ json_str ''prefix'' @ '': '' @ json_str ''document'' @ ''}''"
  have e: "py_str_int d1 @ CHR '']'' # (?Q @ py_str_int u1 @ CHR '']'' # ?S)
         = py_str_int d2 @ CHR '']'' # (?Q @ py_str_int u2 @ CHR '']'' # ?S)"
    using assms unfolding document_key_string_shape by (simp only: same_append_eq)
  have d: "py_str_int d1 = py_str_int d2"
    and r: "?Q @ py_str_int u1 @ CHR '']'' # ?S = ?Q @ py_str_int u2 @ CHR '']'' # ?S"
    using split_at_separator[OF bracket_notin_py_str_int bracket_notin_py_str_int e] by simp_all
  have "py_str_int u1 @ CHR '']'' # ?S = py_str_int u2 @ CHR '']'' # ?S"
    using r by (simp only: same_append_eq)
  then have u: "py_str_int u1 = py_str_int u2"
    using split_at_separator[OF bracket_notin_py_str_int bracket_notin_py_str_int] by blast
  show ?thesis using d u py_str_int_inj by blast
qed


text \<open>
  Claim C9. The key of a document view is the prefix and the hash of a string that contains
  both the document id and the id of the requesting user: two such strings are equal only
  for the same document and the same user. Where the hashes of the two strings differ, the
  keys differ, and a response cached under one key leaves the lookup under the other as it
  was; so a response cached for one user is not served to another user of the same document
  unless the hash collides on their two strings.
\<close>

theorem document_cache_key_separates_users:
  "document_cache_key md5 document_id user_id
     = ''document:'' @ md5 (key_string str_empty_tuple ''document'' ()
                              [(''document_id'', PInt document_id), (''user_id'', PInt user_id)])
   \<and> (key_string str_empty_tuple ''document'' ()
          [(''document_id'', PInt document_id), (''user_id'', PInt user_id)]
       = key_string str_empty_tuple ''document'' ()
          [(''document_id'', PInt document_id'), (''user_id'', PInt user_id')]
       \<longrightarrow> document_id = document_id' \<and> user_id = user_id')
   \<and> (md5 (key_string str_empty_tuple ''document'' ()
              [(''document_id'', PInt document_id), (''user_id'', PInt user_id)])
       \<noteq> md5 (key_string str_empty_tuple ''document'' ()
              [(''document_id'', PInt document_id'), (''user_id'', PInt user_id')])
       \<longrightarrow> document_cache_key md5 document_id user_id \<noteq> document_cache_key md5 document_id' user_id'
           \<and> fst (get_cache codec env
                    (snd (set_cache codec env st (document_cache_key md5 document_id user_id) v ttl))
                    (document_cache_key md5 document_id' user_id'))
               = fst (get_cache codec env st (document_cache_key md5 document_id' user_id')))"
proof (intro conjI impI)
  show "document_cache_key md5 document_id user_id
     = ''document:'' @ md5 (key_string str_empty_tuple ''document'' ()
                              [(''document_id'', PInt document_id), (''user_id'', PInt user_id)])"
    by (simp add: document_cache_key_def generate_cache_key_def)
next
  assume "key_string str_empty_tuple ''document'' ()
          [(''document_id'', PInt document_id), (''user_id'', PInt user_id)]
       = key_string str_empty_tuple ''document'' ()
          [(''document_id'', PInt document_id'), (''user_id'', PInt user_id')]"
  then have b: "document_id = document_id' \<and> user_id = user_id'"
    by (rule document_key_string_inj_both)
  from b show "document_id = document_id'" by (rule conjunct1)
  from b show "user_id = user_id'" by (rule conjunct2)
next
  assume m: "md5 (key_string str_empty_tuple ''document'' ()
              [(''document_id'', PInt document_id), (''user_id'', PInt user_id)])
       \<noteq> md5 (key_string str_empty_tuple ''document'' ()
              [(''document_id'', PInt document_id'), (''user_id'', PInt user_id')])"
  show k: "document_cache_key md5 document_id user_id \<noteq> document_cache_key md5 document_id' user_id'"
    unfolding document_cache_key_def generate_cache_key_def
    using m by (simp only: same_append_eq not_False_eq_True)
  show "fst (get_cache codec env
                    (snd (set_cache codec env st (document_cache_key md5 document_id user_id) v ttl))
                    (document_cache_key md5 document_id' user_id'))
               = fst (get_cache codec env st (document_cache_key md5 document_id' user_id'))"
    by (rule get_after_set_other_key[OF k])
qed

theorem document_cache_key_separates_users_witness:
  "key_string str_empty_tuple ''document'' () [(''document_id'', PInt 5), (''user_id'', PInt 1)]
     \<noteq> key_string str_empty_tuple ''document'' () [(''document_id'', PInt 5), (''user_id'', PInt 2)]
   \<and> document_cache_key (\<lambda>s. s) 5 1 \<noteq> document_cache_key (\<lambda>s. s) 5 2"
proof -
  note t = document_cache_key_separates_users[of "\<lambda>s. s" 5 1 5 2]
  have a: "\<not> ((5::int) = 5 \<and> (1::int) = 2)" by simp
  have ks: "key_string str_empty_tuple ''document'' () [(''document_id'', PInt 5), (''user_id'', PInt 1)]
     \<noteq> key_string str_empty_tuple ''document'' () [(''document_id'', PInt 5), (''user_id'', PInt 2)]"
    using t[THEN conjunct2, THEN conjunct1] a by blast
  have k: "document_cache_key (\<lambda>s. s) 5 1 \<noteq> document_cache_key (\<lambda>s. s) 5 2"
    using t[THEN conjunct2, THEN conjunct2, THEN mp, THEN conjunct1] ks by blast
  show ?thesis using ks k by (intro conjI)
qed

section \<open>The key of a search\<close>

text \<open>
  Claim C10. The key of a search depends on the query only through the stripped, lower-cased
  query: two queries that are equal after \<^verbatim>\<open>strip()\<close> and \<^verbatim>\<open>lower()\<close> derive the same key.
\<close>

theorem search_cache_key_normalized:
  assumes "py_lower (py_strip query1) = py_lower (py_strip query2)"
  shows "search_cache_key md5 query1 = search_cache_key md5 query2"
  using assms by (simp add: search_cache_key_def)

theorem search_cache_key_normalized_witness:
  "py_lower (py_strip ''  Contract Renewal '') = py_lower (py_strip ''contract renewal'')
   \<and> search_cache_key (\<lambda>s. s) ''  Contract Renewal '' = search_cache_key (\<lambda>s. s) ''contract renewal''"
proof -
  have e: "py_lower (py_strip ''  Contract Renewal '') = py_lower (py_strip ''contract renewal'')"
    by code_simp
  have k: "search_cache_key (\<lambda>s. s) ''  Contract Renewal '' = search_cache_key (\<lambda>s. s) ''contract renewal''"
    by (rule search_cache_key_normalized[OF e])
  show ?thesis
    using e k by (intro conjI)
qed

section \<open>What the cache operations absorb\<close>

lemma get_cache_get_raises:
  assumes "get_raises env key = Some e" and "redis_client st \<or> connect_ok env"
  shows "fst (get_cache codec env st key) = (if get_cache_catches e then Inr None else Inl e)"
  using assms by (auto simp: get_cache_def get_redis_client_def)

lemma get_cache_loads_raises:
  assumes "get_raises env key = None" and "store st key = Some (t, s)" and "s \<noteq> []"
    and "loads codec s = Inl e" and "redis_client st \<or> connect_ok env"
  shows "fst (get_cache codec env st key) = (if get_cache_catches e then Inr None else Inl e)"
  using assms by (auto simp: get_cache_def get_redis_client_def)

lemma set_cache_dumps_raises:
  assumes "dumps codec v = Inl e" and "redis_client st \<or> connect_ok env"
  shows "fst (set_cache codec env st key v ttl) = (if set_cache_catches e then Inr False else Inl e)
         \<and> store (snd (set_cache codec env st key v ttl)) = store st"
  using assms by (auto simp: set_cache_def get_redis_client_def Let_def)

lemma set_cache_setex_raises:
  assumes "dumps codec v = Inr j" and "setex_raises env key = Some e"
    and "redis_client st \<or> connect_ok env"
  shows "fst (set_cache codec env st key v ttl) = (if set_cache_catches e then Inr False else Inl e)
         \<and> store (snd (set_cache codec env st key v ttl)) = store st"
  using assms by (auto simp: set_cache_def get_redis_client_def Let_def)


text \<open>
  Claim C8, as the code has it. \<^verbatim>\<open>get_cache\<close> never lets a \<^verbatim>\<open>RedisError\<close> or a
  \<^verbatim>\<open>JSONDecodeError\<close> through, \<^verbatim>\<open>set_cache\<close> never a \<^verbatim>\<open>RedisError\<close> or a \<^verbatim>\<open>TypeError\<close>.
  Without a client, a read is a miss and a write returns \<^verbatim>\<open>False\<close> and changes nothing.
  With a client, an exception of \<^verbatim>\<open>client.get\<close> or of \<^verbatim>\<open>json.loads\<close> makes the read a miss when
  its class is \<^verbatim>\<open>RedisError\<close> or \<^verbatim>\<open>JSONDecodeError\<close>, and reaches the caller otherwise; an
  exception of \<^verbatim>\<open>json.dumps\<close> or of \<^verbatim>\<open>client.setex\<close> makes the write return \<^verbatim>\<open>False\<close> when its
  class is \<^verbatim>\<open>RedisError\<close> or \<^verbatim>\<open>TypeError\<close>, and reaches the caller otherwise; in both cases the
  entries stay as they were.
\<close>

theorem cache_absorbs_named_errors:
  "(\<forall>e. fst (get_cache codec env st key) = Inl e \<longrightarrow>
        exn_cls e \<noteq> RedisError \<and> exn_cls e \<noteq> JSONDecodeError)
   \<and> (\<forall>e. fst (set_cache codec env st key v ttl) = Inl e \<longrightarrow>
        exn_cls e \<noteq> RedisError \<and> exn_cls e \<noteq> TypeError)
   \<and> (\<not> redis_client st \<and> \<not> connect_ok env \<longrightarrow>
        get_cache codec env st key = (Inr None, st)
        \<and> set_cache codec env st key v ttl = (Inr False, st))
   \<and> (\<forall>e. (redis_client st \<or> connect_ok env) \<and> get_raises env key = Some e \<longrightarrow>
        fst (get_cache codec env st key)
          = (if exn_cls e = RedisError \<or> exn_cls e = JSONDecodeError then Inr None else Inl e))
   \<and> (\<forall>e t s. (redis_client st \<or> connect_ok env) \<and> get_raises env key = None
          \<and> store st key = Some (t, s) \<and> s \<noteq> [] \<and> loads codec s = Inl e \<longrightarrow>
        fst (get_cache codec env st key)
          = (if exn_cls e = RedisError \<or> exn_cls e = JSONDecodeError then Inr None else Inl e))
   \<and> (\<forall>e. (redis_client st \<or> connect_ok env) \<and> dumps codec v = Inl e \<longrightarrow>
        fst (set_cache codec env st key v ttl)
          = (if exn_cls e = RedisError \<or> exn_cls e = TypeError then Inr False else Inl e)
        \<and> store (snd (set_cache codec env st key v ttl)) = store st)
   \<and> (\<forall>e j. (redis_client st \<or> connect_ok env) \<and> dumps codec v = Inr j
          \<and> setex_raises env key = Some e \<longrightarrow>
        fst (set_cache codec env st key v ttl)
          = (if exn_cls e = RedisError \<or> exn_cls e = TypeError then Inr False else Inl e)
        \<and> store (snd (set_cache codec env st key v ttl)) = store st)"
proof (intro conjI allI impI)
  fix e assume "fst (get_cache codec env st key) = Inl e"
  then have "\<not> get_cache_catches e"
    by (auto simp: get_cache_def split: prod.splits bool.splits option.splits sum.splits if_splits)
  then show "exn_cls e \<noteq> RedisError" and "exn_cls e \<noteq> JSONDecodeError"
    by (simp_all add: get_cache_catches_def)
next
  fix e assume "fst (set_cache codec env st key v ttl) = Inl e"
  then have "\<not> set_cache_catches e"
    by (auto simp: set_cache_def Let_def split: prod.splits bool.splits option.splits sum.splits if_splits)
  then show "exn_cls e \<noteq> RedisError" and "exn_cls e \<noteq> TypeError"
    by (simp_all add: set_cache_catches_def)
next
  assume a: "\<not> redis_client st \<and> \<not> connect_ok env"
  then show "get_cache codec env st key = (Inr None, st)"
    by (simp add: get_cache_def get_redis_client_def)
  from a show "set_cache codec env st key v ttl = (Inr False, st)"
    by (simp add: set_cache_def get_redis_client_def)
next
  fix e assume "(redis_client st \<or> connect_ok env) \<and> get_raises env key = Some e"
  then show "fst (get_cache codec env st key)
          = (if exn_cls e = RedisError \<or> exn_cls e = JSONDecodeError then Inr None else Inl e)"
    using get_cache_get_raises[of env key e st codec] by (simp add: get_cache_catches_def)
next
  fix e t s
  assume "(redis_client st \<or> connect_ok env) \<and> get_raises env key = None
          \<and> store st key = Some (t, s) \<and> s \<noteq> [] \<and> loads codec s = Inl e"
  then show "fst (get_cache codec env st key)
          = (if exn_cls e = RedisError \<or> exn_cls e = JSONDecodeError then Inr None else Inl e)"
    using get_cache_loads_raises[of env key st t s codec e] by (simp add: get_cache_catches_def)
next
  fix e assume a: "(redis_client st \<or> connect_ok env) \<and> dumps codec v = Inl e"
  then show "fst (set_cache codec env st key v ttl)
          = (if exn_cls e = RedisError \<or> exn_cls e = TypeError then Inr False else Inl e)"
    using set_cache_dumps_raises[of codec v e st env key ttl] by (simp add: set_cache_catches_def)
  from a show "store (snd (set_cache codec env st key v ttl)) = store st"
    using set_cache_dumps_raises[of codec v e st env key ttl] by simp
next
  fix e j
  assume a: "(redis_client st \<or> connect_ok env) \<and> dumps codec v = Inr j
          \<and> setex_raises env key = Some e"
  then show "fst (set_cache codec env st key v ttl)
          = (if exn_cls e = RedisError \<or> exn_cls e = TypeError then Inr False else Inl e)"
    using set_cache_setex_raises[of codec v j env key e st ttl] by (simp add: set_cache_catches_def)
  from a show "store (snd (set_cache codec env st key v ttl)) = store st"
    using set_cache_setex_raises[of codec v j env key e st ttl] by simp
qed


text \<open>
  Claim C8 as stated fails: \<^verbatim>\<open>json.dumps\<close> raises \<^verbatim>\<open>ValueError\<close> for a value that contains
  itself, the handler of \<^verbatim>\<open>set_cache\<close> names \<^verbatim>\<open>RedisError\<close> and \<^verbatim>\<open>TypeError\<close> only, and the
  exception reaches the caller.
\<close>

theorem set_cache_raises_counterexample:
  "fst (set_cache
         \<lparr>dumps = (\<lambda>v::unit. Inl (Raised ValueError ''Circular reference detected'')),
          loads = (\<lambda>s. Inr None)\<rparr>
         \<lparr>connect_ok = True, get_raises = (\<lambda>k. None), setex_raises = (\<lambda>k. None)\<rparr>
         \<lparr>redis_client = False, store = Map.empty\<rparr> ''k'' () None)
     = Inl (Raised ValueError ''Circular reference detected'')"
  by (simp add: set_cache_def get_redis_client_def set_cache_catches_def)

theorem cache_absorbs_named_errors_witness:
  "fst (get_cache \<lparr>dumps = (\<lambda>v::string. Inr v), loads = (\<lambda>s. Inr (Some s))\<rparr>
         \<lparr>connect_ok = True, get_raises = (\<lambda>k. Some (Raised RedisError ''timeout'')),
                setex_raises = (\<lambda>k. Some (Raised ValueError ''bad''))\<rparr>
         \<lparr>redis_client = True, store = Map.empty\<rparr> ''k'') = Inr None
   \<and> fst (set_cache \<lparr>dumps = (\<lambda>v::string. Inr v), loads = (\<lambda>s. Inr (Some s))\<rparr>
         \<lparr>connect_ok = True, get_raises = (\<lambda>k. Some (Raised RedisError ''timeout'')),
                setex_raises = (\<lambda>k. Some (Raised ValueError ''bad''))\<rparr>
         \<lparr>redis_client = True, store = Map.empty\<rparr> ''k'' ''v'' None)
       = Inl (Raised ValueError ''bad'')"
proof -
  let ?env = "\<lparr>connect_ok = True, get_raises = (\<lambda>k. Some (Raised RedisError ''timeout'')),
                setex_raises = (\<lambda>k. Some (Raised ValueError ''bad''))\<rparr>"
  let ?codec = "\<lparr>dumps = (\<lambda>v::string. Inr v), loads = (\<lambda>s. Inr (Some s))\<rparr>"
  let ?st = "\<lparr>redis_client = True, store = Map.empty\<rparr>"
  note t = cache_absorbs_named_errors[of ?codec ?env ?st "''k''" "''v''" None]
  have a: "redis_client ?st \<or> connect_ok ?env" by simp
  have g: "get_raises ?env ''k'' = Some (Raised RedisError ''timeout'')" by simp
  have s: "setex_raises ?env ''k'' = Some (Raised ValueError ''bad'')" by simp
  have j: "dumps ?codec ''v'' = Inr ''v''" by simp
  have r1: "fst (get_cache ?codec ?env ?st ''k'')
      = (if exn_cls (Raised RedisError ''timeout'') = RedisError
            \<or> exn_cls (Raised RedisError ''timeout'') = JSONDecodeError then Inr None
         else Inl (Raised RedisError ''timeout''))"
    using t a g by blast
  have r2: "fst (set_cache ?codec ?env ?st ''k'' ''v'' None)
      = (if exn_cls (Raised ValueError ''bad'') = RedisError
            \<or> exn_cls (Raised ValueError ''bad'') = TypeError then Inr False
         else Inl (Raised ValueError ''bad''))"
    using t a j s by blast
  show ?thesis
    using r1 r2 by simp
qed

section \<open>The outcome of the background task\<close>

text \<open>
  Claim C1, as the code has it. When the summary is generated and the document exists:
  if the embedding is generated and saving it fails, the final status is
  \<^verbatim>\<open>completed (embedding save failed: ...)\<close>, the generated summary is stored and the table of
  embeddings is as before; if generating the embedding fails, the final status is the
  failure status, the summary column is as before and the table of embeddings too.
\<close>

theorem embedding_failure_outcomes:
  assumes "documents db doc_id = Some doc" and "gen_summary text = Inr summary"
  shows "(\<forall>v e. gen_embedding text = Inr v \<and> save_raises = Some e \<longrightarrow>
            status_of (final_database db
                (process_document_background gen_summary gen_embedding save_raises db doc_id text)) doc_id
              = Some (''completed (embedding save failed: '' @ exn_str e @ '')'')
            \<and> summary_of (final_database db
                (process_document_background gen_summary gen_embedding save_raises db doc_id text)) doc_id
              = Some summary
            \<and> embeddings (final_database db
                (process_document_background gen_summary gen_embedding save_raises db doc_id text))
              = embeddings db)
       \<and> (\<forall>e. gen_embedding text = Inl e \<longrightarrow>
            status_of (final_database db
                (process_document_background gen_summary gen_embedding save_raises db doc_id text)) doc_id
              = Some (failure_status (Raised Exception (''Embedding generation failed: '' @ exn_str e)))
            \<and> summary_of (final_database db
                (process_document_background gen_summary gen_embedding save_raises db doc_id text)) doc_id
              = d_summary doc
            \<and> embeddings (final_database db
                (process_document_background gen_summary gen_embedding save_raises db doc_id text))
              = embeddings db)"
  using assms
  by (auto simp: process_document_background_def final_database_def mark_failed_def
                 status_of_def summary_of_def Let_def)

text \<open>
  Claim C1 as stated fails: the summary is generated, generating the embedding raises, and
  the document ends with a failed status and without a summary.
\<close>

theorem embedding_failure_counterexample:
  "status_of (final_database example_db
       (process_document_background (\<lambda>t. Inr ''Short note.'')
          (\<lambda>t. Inl (Raised RuntimeError ''model unavailable'')) None example_db 1 ''Short note.'')) 1
     = Some ''failed: Exception: Embedding generation failed: model unavailable''
   \<and> summary_of (final_database example_db
       (process_document_background (\<lambda>t. Inr ''Short note.'')
          (\<lambda>t. Inl (Raised RuntimeError ''model unavailable'')) None example_db 1 ''Short note.'')) 1
     = None"
  by (simp add: process_document_background_def final_database_def mark_failed_def
                status_of_def summary_of_def example_db_def Document_def failure_status_def)

theorem embedding_failure_outcomes_witness:
  "documents example_db 1 \<noteq> None
   \<and> status_of (final_database example_db
       (process_document_background (\<lambda>t. Inr ''Short note.'') (\<lambda>t. Inr [1, 0])
          (Some (Raised RuntimeError ''disk full'')) example_db 1 ''Short note.'')) 1
     = Some ''completed (embedding save failed: disk full)''
   \<and> summary_of (final_database example_db
       (process_document_background (\<lambda>t. Inr ''Short note.'') (\<lambda>t. Inr [1, 0])
          (Some (Raised RuntimeError ''disk full'')) example_db 1 ''Short note.'')) 1
     = Some ''Short note.''"
proof -
  let ?doc = "Document 7 ''note.txt'' ''txt'' ''Short note.'' (Some ''processing'')"
  have d: "documents example_db 1 = Some ?doc" by (simp add: example_db_def)
  have s: "(\<lambda>t::string. Inr ''Short note.'' :: exn + string) ''Short note.'' = Inr ''Short note.''"
    by simp
  note t = embedding_failure_outcomes[of example_db 1 "?doc" "\<lambda>t. Inr ''Short note.''"
               "''Short note.''" "''Short note.''" "\<lambda>t. Inr [1, 0]"
               "Some (Raised RuntimeError ''disk full'')",
             OF d s, THEN conjunct1, rule_format, of "[1, 0]" "Raised RuntimeError ''disk full''"]
  have r: "status_of (final_database example_db
       (process_document_background (\<lambda>t. Inr ''Short note.'') (\<lambda>t. Inr [1, 0])
          (Some (Raised RuntimeError ''disk full'')) example_db 1 ''Short note.'')) 1
     = Some ''completed (embedding save failed: disk full)''
   \<and> summary_of (final_database example_db
       (process_document_background (\<lambda>t. Inr ''Short note.'') (\<lambda>t. Inr [1, 0])
          (Some (Raised RuntimeError ''disk full'')) example_db 1 ''Short note.'')) 1
     = Some ''Short note.''"
    using t by simp
  show ?thesis using d r by simp
qed

section \<open>The status of a document\<close>

lemma status_phase_failure: "status_phase (Some (failure_status e)) = Failed"
  by (simp add: status_phase_def failure_status_def Let_def)

lemma upload_document_status:
  "upload_document read_result db_error db0 uid filename = Inr (db', i)
     \<Longrightarrow> status_of db' i = Some ''processing''"
  by (auto simp: upload_document_def Let_def status_of_def Document_def
           split: if_splits sum.splits option.splits)

lemma process_commits_cases:
  assumes "documents db doc_id = Some doc"
  shows "\<exists>s. map (\<lambda>d. status_of d doc_id)
               (process_document_background gen_summary gen_embedding save_raises db doc_id text)
           \<in> {[Some (failure_status s)], [Some ''completed'', Some ''completed''],
               [Some ''completed'', Some (''completed (embedding save failed: '' @ exn_str s @ '')'')]}"
  using assms
  by (auto simp: process_document_background_def mark_failed_def status_of_def Let_def
           split: sum.splits option.splits)

text \<open>
  Claim C2, as the code has it. An uploaded document is stored with the status
  \<^verbatim>\<open>processing\<close>. One run of the background task on a document in that status commits at
  least once, every committed status is of the completed or of the failed class, and the
  phases of the successive states follow the transitions of the specification.
\<close>

theorem document_status_progress:
  "(\<forall>db' i. upload_document read_result db_error db0 uid filename = Inr (db', i)
       \<longrightarrow> status_of db' i = Some ''processing'')
   \<and> (status_of db doc_id = Some ''processing'' \<longrightarrow>
         process_document_background gen_summary gen_embedding save_raises db doc_id text \<noteq> []
         \<and> successively spec_transition
             (map (\<lambda>d. status_phase (status_of d doc_id))
                (db # process_document_background gen_summary gen_embedding save_raises db doc_id text))
         \<and> (\<forall>d\<in>set (process_document_background gen_summary gen_embedding save_raises db doc_id text).
               status_phase (status_of d doc_id) = Completed
               \<or> status_phase (status_of d doc_id) = Failed))"
proof (intro conjI impI allI)
  fix db' i
  assume "upload_document read_result db_error db0 uid filename = Inr (db', i)"
  then show "status_of db' i = Some ''processing''" by (rule upload_document_status)
next
  assume p: "status_of db doc_id = Some ''processing''"
  then obtain doc where d: "documents db doc_id = Some doc"
    by (auto simp: status_of_def split: option.splits)
  let ?commits = "process_document_background gen_summary gen_embedding save_raises db doc_id text"
  obtain s where c: "map (\<lambda>d. status_of d doc_id) ?commits
           \<in> {[Some (failure_status s)], [Some ''completed'', Some ''completed''],
               [Some ''completed'', Some (''completed (embedding save failed: '' @ exn_str s @ '')'')]}"
    using process_commits_cases[OF d, of gen_summary gen_embedding save_raises "text"] by (elim exE)
  have m: "map (\<lambda>d. status_phase (status_of d doc_id)) ?commits
             = map status_phase (map (\<lambda>d. status_of d doc_id) ?commits)"
    by simp
  have ph: "map (\<lambda>d. status_phase (status_of d doc_id)) ?commits \<in> {[Failed], [Completed, Completed]}"
    unfolding m using c by (auto simp: status_phase_failure) (simp_all add: status_phase_def)
  show "?commits \<noteq> []" using ph by auto
  have p0: "status_phase (status_of db doc_id) = Processing" using p by (simp add: status_phase_def)
  show "successively spec_transition (map (\<lambda>d. status_phase (status_of d doc_id)) (db # ?commits))"
    using ph p0 by (auto simp: spec_transition_def)
  have "\<forall>q\<in>set (map (\<lambda>d. status_phase (status_of d doc_id)) ?commits). q = Completed \<or> q = Failed"
    using ph by auto
  then show "\<forall>d\<in>set ?commits. status_phase (status_of d doc_id) = Completed
               \<or> status_phase (status_of d doc_id) = Failed"
    by simp
qed

text \<open>
  Claim C2 as stated fails: the upload stores the document with the status
  \<^verbatim>\<open>processing\<close>, not \<^verbatim>\<open>pending\<close>.
\<close>

theorem created_pending_counterexample:
  "(case upload_document (Inr ''Short note.'') None empty_db 7 ''note.txt'' of
      Inl e \<Rightarrow> None | Inr (db', i) \<Rightarrow> status_of db' i) = Some ''processing''
   \<and> (case upload_document (Inr ''Short note.'') None empty_db 7 ''note.txt'' of
      Inl e \<Rightarrow> None | Inr (db', i) \<Rightarrow> status_of db' i) \<noteq> Some ''pending''"
proof -
  have e: "py_lower (last_dot_part ''note.txt'') = ''txt''" by code_simp
  have s: "py_strip ''Short note.'' = ''Short note.''" by code_simp
  show ?thesis
    by (simp add: upload_document_def e s Let_def empty_db_def status_of_def Document_def)
qed

theorem document_status_progress_witness:
  "status_of example_db 1 = Some ''processing''
   \<and> process_document_background (\<lambda>t. Inr ''Short note.'') (\<lambda>t. Inr [1, 0]) None
         example_db 1 ''Short note.'' \<noteq> []
   \<and> successively spec_transition
         (map (\<lambda>d. status_phase (status_of d 1))
            (example_db # process_document_background (\<lambda>t. Inr ''Short note.'') (\<lambda>t. Inr [1, 0])
               None example_db 1 ''Short note.''))"
proof -
  have p: "status_of example_db 1 = Some ''processing''"
    by (simp add: status_of_def example_db_def Document_def)
  note t = document_status_progress[of _ _ _ _ _ example_db 1 "\<lambda>t. Inr ''Short note.''"
             "\<lambda>t. Inr [1, 0]" None "''Short note.''", THEN conjunct2, THEN mp, OF p]
  show ?thesis
    using p t by (intro conjI) simp_all
qed

section \<open>Ranking of the search results\<close>

lemma round_half_even_mono:
  assumes "x \<le> y"
  shows "round_half_even x \<le> round_half_even y"
proof (cases "\<lfloor>x\<rfloor> = \<lfloor>y\<rfloor>")
  case True
  then have "x - of_int \<lfloor>x\<rfloor> \<le> y - of_int \<lfloor>y\<rfloor>" using assms by simp
  with True show ?thesis by (auto simp: round_half_even_def Let_def)
next
  case False
  have "\<lfloor>x\<rfloor> \<le> \<lfloor>y\<rfloor>" using assms by (rule floor_mono)
  with False have lt: "\<lfloor>x\<rfloor> + 1 \<le> \<lfloor>y\<rfloor>" by simp
  have a: "round_half_even x \<le> \<lfloor>x\<rfloor> + 1" by (simp add: round_half_even_def Let_def)
  have b: "\<lfloor>y\<rfloor> \<le> round_half_even y" by (simp add: round_half_even_def Let_def)
  from a lt b show ?thesis by linarith
qed

lemma py_round4_mono: "x \<le> y \<Longrightarrow> py_round4 x \<le> py_round4 y"
  using round_half_even_mono[of "x * 10000" "y * 10000"]
  by (simp add: py_round4_def divide_right_mono)

lemma py_round4_floor: "py_round4 (1 / 5) = 1 / 5"
  by (simp add: py_round4_def round_half_even_def)

lemma py_round4_above_floor: "1 / 5 < x \<Longrightarrow> 1 / 5 \<le> py_round4 x"
  using py_round4_mono[of "1 / 5" x] by (simp add: py_round4_floor)

lemma length_search_rows: "length (search_rows distance db qv) \<le> 10"
  by (simp add: search_rows_def)

lemma similarity_search_rows:
  "map r_similarity (search_rows distance db qv)
     = map (\<lambda>d. 1 - d)
         (take 10 (map (\<lambda>(e, d, u). distance (e_embedding e) qv)
            (sort_key (\<lambda>(e, d, u). distance (e_embedding e) qv) (joined_rows db))))"
  by (simp add: search_rows_def take_map split_def comp_def)

lemma sorted_search_rows:
  "sorted_wrt (\<lambda>a b. b \<le> a) (map r_similarity (search_rows distance db qv))"
proof -
  have "sorted (take 10 (map (\<lambda>(e, d, u). distance (e_embedding e) qv)
            (sort_key (\<lambda>(e, d, u). distance (e_embedding e) qv) (joined_rows db))))"
    by (intro sorted_wrt_take) simp
  then have "sorted_wrt (\<lambda>a b. (1::rat) - b \<le> 1 - a) (take 10 (map (\<lambda>(e, d, u). distance (e_embedding e) qv)
            (sort_key (\<lambda>(e, d, u). distance (e_embedding e) qv) (joined_rows db))))"
    by (rule sorted_wrt_mono_rel[rotated]) simp
  then show ?thesis
    unfolding similarity_search_rows by (simp add: sorted_wrt_map)
qed

lemma returned_properties:
  assumes "sorted_wrt (\<lambda>a b. b \<le> a) (map r_similarity rows)" and "length rows \<le> 10"
  shows "sorted_wrt (\<lambda>a b. b \<le> a) (map r_similarity (returned rows))"
    and "length (returned rows) \<le> 10"
    and "\<forall>r\<in>set (returned rows). 1 / 5 \<le> r_similarity r
           \<and> (\<exists>x. 1 / 5 < x \<and> r_similarity r = py_round4 x)"
proof -
  have "sorted_wrt (\<lambda>a b. r_similarity b \<le> r_similarity a) (filter (\<lambda>r. 1 / 5 < r_similarity r) rows)"
    using assms(1) by (simp add: sorted_wrt_map sorted_wrt_filter)
  then have "sorted_wrt (\<lambda>a b. py_round4 (r_similarity b) \<le> py_round4 (r_similarity a))
               (filter (\<lambda>r. 1 / 5 < r_similarity r) rows)"
    by (rule sorted_wrt_mono_rel[rotated]) (simp add: py_round4_mono)
  then show "sorted_wrt (\<lambda>a b. b \<le> a) (map r_similarity (returned rows))"
    by (simp add: returned_def sorted_wrt_map)
  have "length (returned rows) \<le> length rows" by (simp add: returned_def)
  with assms(2) show "length (returned rows) \<le> 10" by simp
  show "\<forall>r\<in>set (returned rows). 1 / 5 \<le> r_similarity r
           \<and> (\<exists>x. 1 / 5 < x \<and> r_similarity r = py_round4 x)"
  proof
    fix r assume "r \<in> set (returned rows)"
    then obtain r0 where r0: "r = r0\<lparr>r_similarity := py_round4 (r_similarity r0)\<rparr>"
      and f: "1 / 5 < r_similarity r0"
      unfolding returned_def by auto
    have e: "r_similarity r = py_round4 (r_similarity r0)" using r0 by simp
    have "1 / 5 \<le> r_similarity r" unfolding e using f by (rule py_round4_above_floor)
    with e f show "1 / 5 \<le> r_similarity r \<and> (\<exists>x. 1 / 5 < x \<and> r_similarity r = py_round4 x)"
      by blast
  qed
qed

lemma respond_results:
  "respond codec env st key resp ttl = (Inr resp', st') \<Longrightarrow> resp' = resp"
  by (auto simp: respond_def split: prod.splits sum.splits)

lemma semantic_search_miss_exact:
  assumes r: "semantic_search md5 generate_embedding distance codec env st db query = (Inr resp, st')"
    and m: "fst (get_cache codec env st (search_cache_key md5 query)) = Inr None"
  shows "\<exists>qv. generate_embedding query = Inr qv
           \<and> results resp = returned (search_rows distance db qv)"
proof -
  obtain st1 where g: "get_cache codec env st (search_cache_key md5 query) = (Inr None, st1)"
    using m by (cases "get_cache codec env st (search_cache_key md5 query)") auto
  have q: "py_strip query \<noteq> []" using r by (auto simp: semantic_search_def)
  obtain qv where e: "generate_embedding query = Inr qv" and ne: "qv \<noteq> []"
    using r q g by (auto simp: semantic_search_def Let_def split: sum.splits if_splits)
  have "results resp = returned (search_rows distance db qv)"
  proof (cases "search_rows distance db qv = []")
    case True
    with r q g e ne have "resp = \<lparr>message = Some ''No results found'', results = []\<rparr>"
      by (auto simp: semantic_search_def Let_def dest: respond_results)
    with True show ?thesis by (simp add: returned_def)
  next
    case rows: False
    show ?thesis
    proof (cases "returned (search_rows distance db qv) = []")
      case True
      with rows r q g e ne have "resp = \<lparr>message = Some ''No relevant results found'', results = []\<rparr>"
        by (auto simp: semantic_search_def Let_def returned_def dest: respond_results)
      with True show ?thesis by simp
    next
      case False
      with rows r q g e ne
      have "resp = \<lparr>message = None, results = returned (search_rows distance db qv)\<rparr>"
        by (auto simp: semantic_search_def Let_def returned_def dest: respond_results)
      then show ?thesis by simp
    qed
  qed
  with e show ?thesis by blast
qed


text \<open>
  Claim C3, as the code has it. On a cache miss, the returned results are exactly the rows of
  the query whose similarity is above 0.2, in the order of the query, each with its
  similarity rounded to four decimals: a row at or below the floor is never returned. The
  returned similarities are non-increasing, there are at most 10 results, and every returned
  similarity is at least 0.2.
\<close>

theorem semantic_search_ranked:
  assumes "semantic_search md5 generate_embedding distance codec env st db query = (Inr resp, st')"
    and "fst (get_cache codec env st (search_cache_key md5 query)) = Inr None"
  shows "(\<exists>qv. generate_embedding query = Inr qv
            \<and> results resp
                = map (\<lambda>r. r\<lparr>r_similarity := py_round4 (r_similarity r)\<rparr>)
                      (filter (\<lambda>r. 1 / 5 < r_similarity r) (search_rows distance db qv)))
         \<and> sorted_wrt (\<lambda>a b. b \<le> a) (map r_similarity (results resp))
         \<and> length (results resp) \<le> 10
         \<and> (\<forall>r\<in>set (results resp). 1 / 5 \<le> r_similarity r
               \<and> (\<exists>x. 1 / 5 < x \<and> r_similarity r = py_round4 x))"
proof -
  obtain qv where q: "generate_embedding query = Inr qv"
    and e: "results resp = returned (search_rows distance db qv)"
    using semantic_search_miss_exact[OF assms] by (elim exE conjE)
  have x: "\<exists>qv. generate_embedding query = Inr qv
            \<and> results resp
                = map (\<lambda>r. r\<lparr>r_similarity := py_round4 (r_similarity r)\<rparr>)
                      (filter (\<lambda>r. 1 / 5 < r_similarity r) (search_rows distance db qv))"
    using q e unfolding returned_def by (intro exI[of _ qv] conjI)
  note p = returned_properties[OF sorted_search_rows length_search_rows, of distance db qv]
  show ?thesis
    unfolding e using x[unfolded e] p by (intro conjI)
qed


lemma search_example_miss:
  "fst (get_cache plain_codec redis_up empty_cache (search_cache_key (\<lambda>s. s) ''renewal'')) = Inr None"
  by (simp add: get_cache_def get_redis_client_def redis_up_def empty_cache_def)

lemma strip_renewal: "py_strip ''renewal'' = ''renewal''"
  by code_simp

lemma search_example_rows:
  "search_rows (\<lambda>a b. 79999 / 100000) search_db [1, 0]
     = [\<lparr>r_id = 1, r_filename = ''note.txt'', r_summary = None, r_username = ''ann'',
         r_similarity = 20001 / 100000\<rparr>]"
  by (simp add: search_rows_def joined_rows_def search_db_def example_db_def Document_def)

lemma round_example: "py_round4 (20001 / 100000) = 1 / 5"
proof -
  have f: "\<lfloor>20001 / 10 :: rat\<rfloor> = 2000" by (rule floor_unique) simp_all
  have "round_half_even (20001 / 10) = 2000" by (simp add: round_half_even_def f)
  then show ?thesis by (simp add: py_round4_def)
qed

lemma search_example:
  "fst (semantic_search (\<lambda>s. s) (\<lambda>q. Inr [1, 0]) (\<lambda>a b. 79999 / 100000)
          plain_codec redis_up empty_cache search_db ''renewal'')
     = Inr \<lparr>message = None,
            results = [\<lparr>r_id = 1, r_filename = ''note.txt'', r_summary = None,
                        r_username = ''ann'', r_similarity = 1 / 5\<rparr>]\<rparr>"
proof -
  obtain st1 where g: "get_cache plain_codec redis_up empty_cache (search_cache_key (\<lambda>s. s) ''renewal'')
      = (Inr None, st1)"
    using search_example_miss
    by (cases "get_cache plain_codec redis_up empty_cache (search_cache_key (\<lambda>s. s) ''renewal'')") auto
  have d: "dumps plain_codec r = Inr ''{}''" for r by (simp add: plain_codec_def)
  have r: "fst (respond plain_codec redis_up st1 k resp ttl) = Inr resp" for k resp ttl
    by (auto simp: respond_def set_cache_def Let_def d redis_up_def split: prod.splits sum.splits option.splits bool.splits)
  show ?thesis
    by (simp add: semantic_search_def strip_renewal g search_example_rows round_example r)
qed

text \<open>
  Claim C3 as stated fails: a candidate with the similarity 0.20001 passes the filter and is
  returned with the rounded similarity 0.2, which is not above the floor.
\<close>

theorem returned_similarity_counterexample:
  "fst (get_cache plain_codec redis_up empty_cache (search_cache_key (\<lambda>s. s) ''renewal'')) = Inr None
   \<and> (case fst (semantic_search (\<lambda>s. s) (\<lambda>q. Inr [1, 0]) (\<lambda>a b. 79999 / 100000)
                  plain_codec redis_up empty_cache search_db ''renewal'')
       of Inl e \<Rightarrow> [] | Inr resp \<Rightarrow> map r_similarity (results resp)) = [1 / 5]"
  by (simp add: search_example_miss search_example)

theorem semantic_search_ranked_witness:
  "fst (get_cache plain_codec redis_up empty_cache (search_cache_key (\<lambda>s. s) ''renewal'')) = Inr None
   \<and> fst (semantic_search (\<lambda>s. s) (\<lambda>q. Inr [1, 0]) (\<lambda>a b. 79999 / 100000)
          plain_codec redis_up empty_cache search_db ''renewal'')
       = Inr \<lparr>message = None,
            results = [\<lparr>r_id = 1, r_filename = ''note.txt'', r_summary = None,
                        r_username = ''ann'', r_similarity = 1 / 5\<rparr>]\<rparr>
   \<and> length (results \<lparr>message = None,
            results = [\<lparr>r_id = 1, r_filename = ''note.txt'', r_summary = None,
                        r_username = ''ann'', r_similarity = 1 / 5\<rparr>]\<rparr>) \<le> 10"
proof -
  let ?run = "semantic_search (\<lambda>s. s) (\<lambda>q. Inr [1, 0]) (\<lambda>a b. 79999 / 100000)
          plain_codec redis_up empty_cache search_db ''renewal''"
  let ?resp = "\<lparr>message = None,
            results = [\<lparr>r_id = 1, r_filename = ''note.txt'', r_summary = None,
                        r_username = ''ann'', r_similarity = 1 / 5\<rparr>]\<rparr>"
  have e: "?run = (Inr ?resp, snd ?run)"
    using search_example by (metis prod.collapse)
  note t = semantic_search_ranked[OF e search_example_miss, THEN conjunct2, THEN conjunct2,
             THEN conjunct1]
  show ?thesis
    using search_example_miss search_example t by (intro conjI)
qed

section \<open>Stripping keeps the words\<close>

lemma split_from_dropWhile: "split_from [] (dropWhile py_isspace s) = split_from [] s"
  by (induction s) simp_all

lemma split_from_spaces: "\<forall>c\<in>set t. py_isspace c \<Longrightarrow> split_from w t = (if w = [] then [] else [w])"
  by (induction t arbitrary: w) simp_all

lemma split_from_trailing:
  "\<forall>c\<in>set t. py_isspace c \<Longrightarrow> split_from w (a @ t) = split_from w a"
proof (induction a arbitrary: w)
  case Nil
  then show ?case by (simp add: split_from_spaces)
next
  case (Cons c a)
  then show ?case by simp
qed

lemma rev_dropWhile_rev: "s = rev (dropWhile P (rev s)) @ rev (takeWhile P (rev s))"
  by (metis rev_append rev_rev_ident takeWhile_dropWhile_id)

lemma split_from_strip_right: "split_from w (rev (dropWhile py_isspace (rev s))) = split_from w s"
proof -
  have t: "\<forall>c\<in>set (rev (takeWhile py_isspace (rev s))). py_isspace c"
    by (auto dest: set_takeWhileD)
  show ?thesis
    using split_from_trailing[OF t, of w "rev (dropWhile py_isspace (rev s))"]
      rev_dropWhile_rev[of s py_isspace] by simp
qed

lemma py_split_strip: "py_split (py_strip s) = py_split s"
  by (simp add: py_split_def py_strip_def split_from_strip_right split_from_dropWhile)

lemma py_strip_not_Nil: "py_split s \<noteq> [] \<Longrightarrow> py_strip s \<noteq> []"
proof
  assume a: "py_split s \<noteq> []" and "py_strip s = []"
  then have "py_split (py_strip s) = []" by (simp add: py_split_def)
  with a show False by (simp add: py_split_strip)
qed

lemma py_split_w: "py_split ''w'' = [''w'']"
  by (simp add: py_split_def py_isspace_def)

lemma py_split_words_text: "py_split (words_text n) = replicate n ''w''"
proof -
  have "concat (replicate n [''w'']) = replicate n ''w''" by (induction n) simp_all
  then show ?thesis by (simp add: words_text_def py_split_join py_split_w)
qed

lemma truncate_words_text: "py_join '' '' (take MAX_INPUT_WORDS (py_split (words_text 3001))) = words_text 3000"
proof -
  have "take MAX_INPUT_WORDS (py_split (words_text 3001)) = replicate 3000 ''w''"
    by (simp add: py_split_words_text MAX_INPUT_WORDS_def)
  then show ?thesis by (simp add: words_text_def)
qed

lemma chunk_words_text: "chunk_text one_sentence (words_text 3000) CHUNK_MAX_WORDS = [words_text 3000]"
  by (simp add: chunk_text_def one_sentence_def CHUNK_MAX_WORDS_def py_split_words_text)

lemma summarize_words_text:
  "summarize_chunks short_summarizer [words_text 3000] = ([''short''], [words_text 3000])"
  by (simp add: py_split_words_text short_summarizer_def)

lemma compress_short: "compress_summary short_summarizer ''short'' = (''short'', [])"
proof -
  have "py_split ''short'' = [''short'']" by (simp add: py_split_def py_isspace_def)
  then show ?thesis by (simp add: compress_summary_def)
qed

lemma generate_summary_words_text:
  assumes miss: "check_summary_cache md5 text_codec redis_up st (words_text 3001) = (None, st1)"
  shows "generate_summary md5 one_sentence (Inr short_summarizer) text_codec redis_up st
            (words_text 3001) True
         = (Inr ''short'',
            snd (set_cache text_codec redis_up st1 (summary_cache_key md5 (words_text 3000))
                   ''short'' (Some 86400)),
            [words_text 3000])"
proof -
  have s: "py_strip (words_text 3001) \<noteq> []"
    by (rule py_strip_not_Nil) (simp add: py_split_words_text)
  have l: "MAX_INPUT_WORDS < length (py_split (words_text 3001))"
    by (simp add: py_split_words_text MAX_INPUT_WORDS_def)
  show ?thesis
    unfolding generate_summary_def
    by (simp add: s miss l truncate_words_text chunk_words_text summarize_words_text compress_short
          Let_def del: summarize_chunks.simps)
qed

section \<open>Summarizing a long text twice\<close>

lemma check_empty_cache:
  "check_summary_cache md5 text_codec redis_up empty_cache t = (None, empty_cache\<lparr>redis_client := True\<rparr>)"
  by (simp add: check_summary_cache_def get_cache_def get_redis_client_def redis_up_def empty_cache_def)

lemma set_cache_first:
  "snd (set_cache text_codec redis_up (empty_cache\<lparr>redis_client := True\<rparr>)
          (summary_cache_key md5 (words_text 3000)) ''short'' (Some 86400)) = populated_cache md5"
  by (simp add: set_cache_def get_redis_client_def redis_up_def empty_cache_def text_codec_def
        populated_cache_def)

lemma check_populated_cache:
  assumes "summary_cache_key md5 (words_text 3001) \<noteq> summary_cache_key md5 (words_text 3000)"
  shows "check_summary_cache md5 text_codec redis_up (populated_cache md5) (words_text 3001)
           = (None, populated_cache md5)"
  using assms
  by (simp add: check_summary_cache_def get_cache_def get_redis_client_def redis_up_def
        populated_cache_def)

lemma set_cache_second:
  "snd (set_cache text_codec redis_up (populated_cache md5)
          (summary_cache_key md5 (words_text 3000)) ''short'' (Some 86400)) = populated_cache md5"
  by (simp add: set_cache_def get_redis_client_def redis_up_def text_codec_def populated_cache_def)

text \<open>
  Claim C4 at a text of 3001 words. The first call looks the summary up under the key of the
  text, truncates the text to 3000 words and stores the summary under the key of the truncated
  text. Unless the two keys collide, the second call with the same text misses the cache and
  passes the text to the pipeline again.
\<close>

theorem generate_summary_second_call_recomputes:
  assumes "summary_cache_key md5 (words_text 3001) \<noteq> summary_cache_key md5 (words_text 3000)"
  shows "generate_summary md5 one_sentence (Inr short_summarizer) text_codec redis_up empty_cache
            (words_text 3001) True
           = (Inr ''short'', populated_cache md5, [words_text 3000])
         \<and> generate_summary md5 one_sentence (Inr short_summarizer) text_codec redis_up
            (populated_cache md5) (words_text 3001) True
           = (Inr ''short'', populated_cache md5, [words_text 3000])"
proof
  show "generate_summary md5 one_sentence (Inr short_summarizer) text_codec redis_up empty_cache
            (words_text 3001) True
           = (Inr ''short'', populated_cache md5, [words_text 3000])"
    by (simp add: generate_summary_words_text[OF check_empty_cache] set_cache_first)
  show "generate_summary md5 one_sentence (Inr short_summarizer) text_codec redis_up
            (populated_cache md5) (words_text 3001) True
           = (Inr ''short'', populated_cache md5, [words_text 3000])"
    by (simp add: generate_summary_words_text[OF check_populated_cache[OF assms]] set_cache_second)
qed

lemma set_py_join: "set (py_join sep xs) \<subseteq> set sep \<union> (\<Union>x\<in>set xs. set x)"
  by (induction xs rule: induct_list012) auto

lemma escape_plain: "\<forall>c\<in>set s. json_escape_char c = [c] \<Longrightarrow> concat (map json_escape_char s) = s"
  by (induction s) simp_all

lemma json_str_words_text: "json_str (words_text n) = CHR 0x22 # words_text n @ [CHR 0x22]"
proof -
  have "set (words_text n) \<subseteq> {CHR '' '', CHR ''w''}"
    using set_py_join[of "'' ''" "replicate n ''w''"] by (auto simp: words_text_def split: if_splits)
  moreover have "json_escape_char (CHR '' '') = '' ''" "json_escape_char (CHR ''w'') = ''w''"
    by (simp_all add: json_escape_char_def)
  ultimately have "\<forall>c\<in>set (words_text n). json_escape_char c = [c]" by auto
  then show ?thesis by (simp add: json_str_def escape_plain)
qed

lemma text_hash_words_text: "get_text_hash (\<lambda>s. s) (words_text n) = words_text n"
  unfolding get_text_hash_def py_split_strip py_split_words_text by (simp add: words_text_def)

lemma words_text_inj: "words_text m = words_text n \<Longrightarrow> m = n"
proof -
  assume "words_text m = words_text n"
  then have "py_split (words_text m) = py_split (words_text n)" by simp
  then have "length (replicate m ''w'') = length (replicate n ''w'')"
    by (simp only: py_split_words_text)
  then show "m = n" by simp
qed

lemma identity_keys_differ:
  "summary_cache_key (\<lambda>s. s) (words_text 3001) \<noteq> summary_cache_key (\<lambda>s. s) (words_text 3000)"
proof
  assume "summary_cache_key (\<lambda>s. s) (words_text 3001) = summary_cache_key (\<lambda>s. s) (words_text 3000)"
  then have "words_text 3001 = words_text 3000"
    by (simp add: summary_cache_key_def generate_cache_key_def key_string_def sorted_items_def
          json_items_def json_item_def text_hash_words_text json_str_words_text)
  then show False using words_text_inj[of 3001 3000] by simp
qed

theorem generate_summary_second_call_recomputes_witness:
  "summary_cache_key (\<lambda>s. s) (words_text 3001) \<noteq> summary_cache_key (\<lambda>s. s) (words_text 3000)
   \<and> generate_summary (\<lambda>s. s) one_sentence (Inr short_summarizer) text_codec redis_up
        (populated_cache (\<lambda>s. s)) (words_text 3001) True
       = (Inr ''short'', populated_cache (\<lambda>s. s), [words_text 3000])"
  using identity_keys_differ generate_summary_second_call_recomputes[OF identity_keys_differ]
  by (intro conjI) simp_all

section \<open>The lookup key and the storage key of a long text\<close>

lemma split_from_words:
  "\<forall>c\<in>set w. \<not> py_isspace c \<Longrightarrow>
     \<forall>x\<in>set (split_from w s). x \<noteq> [] \<and> (\<forall>c\<in>set x. \<not> py_isspace c)"
proof (induction s arbitrary: w)
  case Nil
  then show ?case by simp
next
  case (Cons c s)
  show ?case
  proof (cases "py_isspace c")
    case True
    have e: "\<forall>c\<in>set []. \<not> py_isspace c" by simp
    have r: "\<forall>x\<in>set (split_from [] s). x \<noteq> [] \<and> (\<forall>c\<in>set x. \<not> py_isspace c)"
      by (rule Cons.IH[OF e])
    have "set (split_from w (c # s)) \<subseteq> (if w = [] then {} else {w}) \<union> set (split_from [] s)"
      using True by auto
    with r Cons.prems show ?thesis by (auto split: if_splits)
  next
    case False
    have p: "\<forall>c'\<in>set (w @ [c]). \<not> py_isspace c'" using Cons.prems False by simp
    have "split_from w (c # s) = split_from (w @ [c]) s" using False by simp
    with Cons.IH[OF p] show ?thesis by (simp only:)
  qed
qed

lemma split_from_word:
  "\<forall>c\<in>set x. \<not> py_isspace c \<Longrightarrow> w @ x \<noteq> [] \<Longrightarrow> split_from w x = [w @ x]"
  by (induction x arbitrary: w) simp_all

lemma py_split_word:
  assumes "x \<in> set (py_split s)"
  shows "py_split x = [x]"
proof -
  have "x \<noteq> [] \<and> (\<forall>c\<in>set x. \<not> py_isspace c)"
    using assms split_from_words[of "[]" s] by (simp add: py_split_def)
  then show ?thesis using split_from_word[of x "[]"] by (simp add: py_split_def)
qed

lemma py_split_join_words:
  assumes "set ws \<subseteq> set (py_split s)"
  shows "py_split (py_join '' '' ws) = ws"
proof -
  have "concat (map py_split ws) = ws"
    using assms by (induction ws) (simp_all add: py_split_word[of _ s])
  then show ?thesis by (simp add: py_split_join)
qed

text \<open>
  For every text of more than \<^verbatim>\<open>MAX_INPUT_WORDS\<close> words, the string that \<^verbatim>\<open>get_text_hash\<close>
  hashes for the truncated text differs from the one it hashes for the text itself: the
  summary is looked up under the hash of one string and stored under the hash of another.
\<close>

lemma truncated_text_hash_input_differs:
  assumes "MAX_INPUT_WORDS < length (py_split text)"
  shows "py_join '' '' (py_split (py_strip (py_join '' '' (take MAX_INPUT_WORDS (py_split text)))))
           \<noteq> py_join '' '' (py_split (py_strip text))"
proof
  let ?ws = "py_split text"
  have t1: "py_split (py_join '' '' (take MAX_INPUT_WORDS ?ws)) = take MAX_INPUT_WORDS ?ws"
    by (rule py_split_join_words[of _ "text"]) (rule set_take_subset)
  have t2: "py_split (py_join '' '' ?ws) = ?ws"
    by (rule py_split_join_words[of _ "text"]) (rule subset_refl)
  assume "py_join '' '' (py_split (py_strip (py_join '' '' (take MAX_INPUT_WORDS ?ws))))
            = py_join '' '' (py_split (py_strip text))"
  then have "py_join '' '' (take MAX_INPUT_WORDS ?ws) = py_join '' '' ?ws"
    by (simp only: py_split_strip t1)
  then have "py_split (py_join '' '' (take MAX_INPUT_WORDS ?ws)) = py_split (py_join '' '' ?ws)"
    by (rule arg_cong)
  then have "take MAX_INPUT_WORDS ?ws = ?ws" by (simp only: t1 t2)
  then have "length (take MAX_INPUT_WORDS ?ws) = length ?ws" by (rule arg_cong)
  with assms show False by simp
qed

end
